theory Spec2Isabelle
  imports Main "HOL-Library.Word" "HOL-Library.Code_Target_Nat"
begin

section \<open>Go library functions used by package giturl\<close>

text \<open>
  A Go \<^verbatim>\<open>string\<close> is a sequence of bytes, so it is a \<^typ>\<open>string\<close> here
  (\<^typ>\<open>char\<close> is a byte), and \<^verbatim>\<open>len\<close> is \<^const>\<open>length\<close>.
  A slice \<^verbatim>\<open>s[:i]\<close> is \<open>take i s\<close> and \<^verbatim>\<open>s[i:]\<close> is
  \<open>drop i s\<close>, which agree with Go where the indices are in range; that they always
  are is proved for each helper of the package (\<open>slice\<close> and the \<open>_chk\<close> functions).
\<close>

text \<open>
  \<^verbatim>\<open>strings.EqualFold(s, t)\<close>. The equations follow the ASCII loop of the library
  function: equal bytes, or an upper-case letter against its lower-case form. When a byte
  of either operand is \<open>0x80\<close> or more the library leaves that loop and compares
  runes under Unicode simple folding. Every call of the package passes as \<open>t\<close> one of its
  ASCII constants and as \<open>s\<close> a slice of the same number of bytes. There the rune
  comparison cannot succeed: a rune of \<open>s\<close> that is encoded in several bytes leaves
  \<open>s\<close> with fewer runes than \<open>t\<close> has bytes, and a byte that is no valid encoding is
  read as U+FFFD, which folds to no ASCII character. So that branch is \<open>False\<close>.
\<close>

fun EqualFold :: "string \<Rightarrow> string \<Rightarrow> bool" where
  "EqualFold [] [] = True"
| "EqualFold (sr # s) (tr # t) =
     (if 128 \<le> (of_char sr :: nat) \<or> 128 \<le> (of_char tr :: nat) then False
      else if tr = sr then EqualFold s t
      else
        let lo = min (of_char sr :: nat) (of_char tr);
            hi = max (of_char sr :: nat) (of_char tr)
        in if 65 \<le> lo \<and> lo \<le> 90 \<and> hi = lo + 97 - 65 then EqualFold s t else False)"
| "EqualFold _ _ = False"

text \<open>
  \<^verbatim>\<open>strings.Index(s, sep)\<close>: the index of the first occurrence of \<open>sep\<close> in
  \<open>s\<close>; the library's \<open>-1\<close> is \<open>None\<close>.
\<close>

fun Index :: "string \<Rightarrow> string \<Rightarrow> nat option" where
  "Index [] sep = (if sep = [] then Some 0 else None)"
| "Index (c # s) sep =
     (if take (length sep) (c # s) = sep then Some 0
      else map_option Suc (Index s sep))"

text \<open>\<^verbatim>\<open>strings.LastIndex(s, sep)\<close>: the index of the last occurrence.\<close>

fun LastIndex :: "string \<Rightarrow> string \<Rightarrow> nat option" where
  "LastIndex [] sep = (if sep = [] then Some 0 else None)"
| "LastIndex (c # s) sep =
     (case LastIndex s sep of
        Some i \<Rightarrow> Some (Suc i)
      | None \<Rightarrow> if take (length sep) (c # s) = sep then Some 0 else None)"

text \<open>\<^verbatim>\<open>strings.TrimSuffix(s, suffix)\<close>.\<close>

definition TrimSuffix :: "string \<Rightarrow> string \<Rightarrow> string" where
  "TrimSuffix s suffix =
     (if length suffix \<le> length s \<and> drop (length s - length suffix) s = suffix
      then take (length s - length suffix) s else s)"

text \<open>
  \<^verbatim>\<open>strconv.ParseUint(s, base, bitSize)\<close> for \<open>2 \<le> base \<le> 36\<close> and
  \<open>1 \<le> bitSize \<le> 64\<close>; the package calls it with base 10 and 16 bits only. (Base 0,
  which reads a base prefix and underscores, is not modelled.) The accumulator is a
  \<^verbatim>\<open>uint64\<close>: a natural number with the wrap-around written out.
\<close>

datatype NumError = ErrSyntax | ErrRange | ErrBase | ErrBitSize

definition lower :: "char \<Rightarrow> nat" where
  "lower c = or (of_char c) 32"

fun ParseUint_loop :: "nat \<Rightarrow> nat \<Rightarrow> nat \<Rightarrow> nat \<Rightarrow> string \<Rightarrow> NumError + nat" where
  "ParseUint_loop base cutoff maxVal n [] = Inr n"
| "ParseUint_loop base cutoff maxVal n (c # cs) =
     (if 48 \<le> (of_char c :: nat) \<and> (of_char c :: nat) \<le> 57 \<or>
         97 \<le> lower c \<and> lower c \<le> 122
      then
        let d = (if 48 \<le> (of_char c :: nat) \<and> (of_char c :: nat) \<le> 57
                 then of_char c - 48 else lower c - 97 + 10)
        in if base \<le> d then Inl ErrSyntax
           else if cutoff \<le> n then Inl ErrRange
           else
             let n' = (n * base) mod 2 ^ 64;
                 n1 = (n' + d) mod 2 ^ 64
             in if n1 < n' \<or> maxVal < n1 then Inl ErrRange
                else ParseUint_loop base cutoff maxVal n1 cs
      else Inl ErrSyntax)"

definition ParseUint :: "string \<Rightarrow> nat \<Rightarrow> nat \<Rightarrow> NumError + nat" where
  "ParseUint s base bitSize =
     (if s = [] then Inl ErrSyntax
      else if \<not> (2 \<le> base \<and> base \<le> 36) then Inl ErrBase
      else if \<not> (1 \<le> bitSize \<and> bitSize \<le> 64) then Inl ErrBitSize
      else ParseUint_loop base ((2 ^ 64 - 1) div base + 1) (2 ^ bitSize - 1) 0 s)"

text \<open>
  \<^verbatim>\<open>fmt.Sprintf("%d", n)\<close> for an unsigned \<open>n\<close>: the decimal digits, most
  significant first, no leading zero.
\<close>

fun Sprintf_d :: "nat \<Rightarrow> string" where
  "Sprintf_d n =
     (if n < 10 then [''0123456789'' ! n]
      else Sprintf_d (n div 10) @ [''0123456789'' ! (n mod 10)])"

declare Sprintf_d.simps [simp del]

text \<open>
  Errors. \<^verbatim>\<open>fmt.Errorf("%w...", err)\<close> builds an error that wraps \<open>err\<close> and
  whose message is the message of \<open>err\<close> followed by the rest of the format;
  \<^verbatim>\<open>errors.Is\<close> follows the chain of wrapped errors. Go compares errors by
  identity; the package creates one error with \<^verbatim>\<open>errors.New\<close>, its sentinel, so
  equality of the values is the same here.
\<close>

datatype error = New string | Errorf_w error string

fun Error :: "error \<Rightarrow> string" where
  "Error (New msg) = msg"
| "Error (Errorf_w err rest) = Error err @ rest"

fun Is :: "error \<Rightarrow> error \<Rightarrow> bool" where
  "Is (New msg) target = (New msg = target)"
| "Is (Errorf_w err rest) target = (Errorf_w err rest = target \<or> Is err target)"

section \<open>The package: types and constants\<close>

datatype ProtocolType =
    ProtocolTypeSSH
  | ProtocolTypeGit
  | ProtocolTypeHTTP
  | ProtocolTypeHTTPs
  | ProtocolTypeFTP
  | ProtocolTypeFTPs
  | ProtocolTypeSCP

definition ImplicitUser :: string where "ImplicitUser = []"
definition DefaultUser :: string where "DefaultUser = ''git''"

definition ImplicitPort :: "16 word" where "ImplicitPort = 0"
definition DefaultSSHPort :: "16 word" where "DefaultSSHPort = 22"
definition DefaultGitPort :: "16 word" where "DefaultGitPort = 9418"
definition DefaultHTTPPort :: "16 word" where "DefaultHTTPPort = 80"
definition DefaultHTTPsPort :: "16 word" where "DefaultHTTPsPort = 443"
definition DefaultFTPPort :: "16 word" where "DefaultFTPPort = 21"
definition DefaultFTPsPort :: "16 word" where "DefaultFTPsPort = 990"

definition prefixSSH :: string where "prefixSSH = ''ssh://''"
definition prefixGit :: string where "prefixGit = ''git://''"
definition prefixHTTP :: string where "prefixHTTP = ''http://''"
definition prefixHTTPs :: string where "prefixHTTPs = ''https://''"
definition prefixFTP :: string where "prefixFTP = ''ftp://''"
definition prefixFTPs :: string where "prefixFTPs = ''ftps://''"
definition suffixGit :: string where "suffixGit = ''.git''"

record GitURL =
  protocol :: ProtocolType
  port :: "16 word"
  user :: string
  host :: string
  path :: string
  repo :: string
  raw :: string

definition ErrInvalidURL :: error where
  "ErrInvalidURL = New ''invalid url''"

section \<open>The package: helpers of parse.go\<close>

definition hasPrefix :: "string \<Rightarrow> string \<Rightarrow> bool" where
  "hasPrefix url prefix =
     (if length url < length prefix then False
      else EqualFold (take (length prefix) url) prefix)"

definition removeSuffix :: "string \<Rightarrow> string \<Rightarrow> string" where
  "removeSuffix url0 suffix =
     (let url = TrimSuffix url0 ''/''
      in if length url < length suffix then url
         else if EqualFold (drop (length url - length suffix) url) suffix
         then take (length url - length suffix) url
         else url)"

definition removePrefix :: "string \<Rightarrow> string \<Rightarrow> string" where
  "removePrefix url prefix =
     (if length url < length prefix then url
      else if EqualFold (take (length prefix) url) prefix
      then drop (length prefix) url
      else url)"

definition cut_str :: "string \<Rightarrow> string \<Rightarrow> string \<times> string \<times> bool" where
  "cut_str s sep =
     (case Index s sep of
        Some i \<Rightarrow> (take i s, drop (i + length sep) s, True)
      | None \<Rightarrow> (s, [], False))"

definition lastCut :: "string \<Rightarrow> string \<Rightarrow> string \<times> string \<times> bool" where
  "lastCut s sep =
     (case LastIndex s sep of
        Some i \<Rightarrow> (take i s, drop (i + length sep) s, True)
      | None \<Rightarrow> ([], s, False))"

text \<open>
  A Go slice expression \<^verbatim>\<open>s[lo:hi]\<close> panics unless \<open>0 \<le> lo \<le> hi \<le> len(s)\<close>.
  The five helpers are the only functions of the package that slice. Below they are written
  once more with every slice expression checked, the indices being Go's \<^verbatim>\<open>int\<close>:
  \<open>None\<close> is the panic. They never panic and return what the helpers above return
  (\<open>hasPrefix_chk\<close>, \<open>removeSuffix_chk\<close>, \<open>removePrefix_chk\<close>, \<open>cut_chk\<close>,
  \<open>lastCut_chk\<close> in the section of facts), so the parsers are stated over the helpers above.
\<close>

definition slice :: "string \<Rightarrow> int \<Rightarrow> int \<Rightarrow> string option" where
  "slice s lo hi =
     (if 0 \<le> lo \<and> lo \<le> hi \<and> hi \<le> int (length s)
      then Some (take (nat (hi - lo)) (drop (nat lo) s)) else None)"

definition hasPrefix_chk :: "string \<Rightarrow> string \<Rightarrow> bool option" where
  "hasPrefix_chk url prefix =
     (if length url < length prefix then Some False
      else case slice url 0 (int (length prefix)) of
             None \<Rightarrow> None
           | Some front \<Rightarrow> Some (EqualFold front prefix))"

definition removeSuffix_chk :: "string \<Rightarrow> string \<Rightarrow> string option" where
  "removeSuffix_chk url0 suffix =
     (let url = TrimSuffix url0 ''/''
      in if length url < length suffix then Some url
         else case slice url (int (length url) - int (length suffix)) (int (length url)) of
                None \<Rightarrow> None
              | Some back \<Rightarrow>
                  if EqualFold back suffix
                  then slice url 0 (int (length url) - int (length suffix))
                  else Some url)"

definition removePrefix_chk :: "string \<Rightarrow> string \<Rightarrow> string option" where
  "removePrefix_chk url prefix =
     (if length url < length prefix then Some url
      else case slice url 0 (int (length prefix)) of
             None \<Rightarrow> None
           | Some front \<Rightarrow>
               if EqualFold front prefix
               then slice url (int (length prefix)) (int (length url))
               else Some url)"

definition cut_chk :: "string \<Rightarrow> string \<Rightarrow> (string \<times> string \<times> bool) option" where
  "cut_chk s sep =
     (case Index s sep of
        Some i \<Rightarrow>
          (case slice s 0 (int i) of
             None \<Rightarrow> None
           | Some a \<Rightarrow>
               (case slice s (int i + int (length sep)) (int (length s)) of
                  None \<Rightarrow> None
                | Some b \<Rightarrow> Some (a, b, True)))
      | None \<Rightarrow> Some (s, [], False))"

definition lastCut_chk :: "string \<Rightarrow> string \<Rightarrow> (string \<times> string \<times> bool) option" where
  "lastCut_chk s sep =
     (case LastIndex s sep of
        Some i \<Rightarrow>
          (case slice s 0 (int i) of
             None \<Rightarrow> None
           | Some a \<Rightarrow>
               (case slice s (int i + int (length sep)) (int (length s)) of
                  None \<Rightarrow> None
                | Some b \<Rightarrow> Some (a, b, True)))
      | None \<Rightarrow> Some ([], s, False))"

section \<open>The package: the parsers\<close>

text \<open>
  \<^verbatim>\<open>&GitURL{...}\<close> leaves the fields it does not name at their zero values: the
  empty string, port 0 and protocol 0, which is \<^const>\<open>ProtocolTypeSSH\<close>. The two
  error messages of the parsers that carry no argument, and the one that quotes the port
  text:
\<close>

definition zeroGitURL :: GitURL where
  "zeroGitURL = \<lparr>protocol = ProtocolTypeSSH, port = 0, user = [], host = [],
                  path = [], repo = [], raw = []\<rparr>"

definition errMissingPath :: error where
  "errMissingPath = Errorf_w ErrInvalidURL '', missing path to repo''"

definition errIllegalPort :: "string \<Rightarrow> error" where
  "errIllegalPort p = Errorf_w ErrInvalidURL ('', illegal port '' @ [CHR 0x27] @ p @ [CHR 0x27])"

definition errExpectedColon :: error where
  "errExpectedColon = Errorf_w ErrInvalidURL ('', expected '' @ [CHR 0x27] @ '':'' @ [CHR 0x27])"

definition parseSSHURL :: "string \<Rightarrow> error + GitURL" where
  "parseSSHURL url =
     (let gitURL = zeroGitURL\<lparr>raw := url, protocol := ProtocolTypeSSH\<rparr>;
          left = removePrefix (removeSuffix url suffixGit) prefixSSH;
          (usr, after, ok) = cut_str left ''@'';
          gitURL = (if ok then gitURL\<lparr>user := usr\<rparr> else gitURL);
          left = (if ok then after else left);
          (before0, left, ok) = cut_str left ''/''
      in if \<not> ok then Inl errMissingPath
         else
           let (hst, prt, ok) = cut_str before0 '':''
           in case (if ok then
                      (case ParseUint prt 10 16 of
                         Inl err \<Rightarrow> Inl (errIllegalPort prt)
                       | Inr p \<Rightarrow> Inr (gitURL\<lparr>port := of_nat p\<rparr>))
                    else
                      Inr (gitURL\<lparr>port := DefaultSSHPort\<rparr>)) of
                Inl err \<Rightarrow> Inl err
              | Inr gitURL \<Rightarrow>
                  let gitURL = gitURL\<lparr>host := hst\<rparr>;
                      (pa, re, _) = lastCut left ''/''
                  in Inr (gitURL\<lparr>path := pa, repo := re\<rparr>))"

definition parseGitURL :: "string \<Rightarrow> error + GitURL" where
  "parseGitURL url =
     (let gitURL = zeroGitURL\<lparr>protocol := ProtocolTypeGit, raw := url\<rparr>;
          left = removePrefix (removeSuffix url suffixGit) prefixGit;
          (before0, left, ok) = cut_str left ''/''
      in if \<not> ok then Inl errMissingPath
         else
           let (hst, prt, ok) = cut_str before0 '':''
           in case (if ok then
                      (case ParseUint prt 10 16 of
                         Inl err \<Rightarrow> Inl (errIllegalPort prt)
                       | Inr p \<Rightarrow> Inr (gitURL\<lparr>port := of_nat p\<rparr>))
                    else
                      Inr (gitURL\<lparr>port := DefaultGitPort\<rparr>)) of
                Inl err \<Rightarrow> Inl err
              | Inr gitURL \<Rightarrow>
                  let gitURL = gitURL\<lparr>host := hst\<rparr>;
                      (pa, re, _) = lastCut left ''/''
                  in Inr (gitURL\<lparr>path := pa, repo := re\<rparr>))"

definition parseHTTPURL :: "string \<Rightarrow> error + GitURL" where
  "parseHTTPURL url =
     (let gitURL = zeroGitURL\<lparr>raw := url\<rparr>;
          left = removeSuffix url suffixGit;
          gitURL = (if hasPrefix url prefixHTTP
                    then gitURL\<lparr>protocol := ProtocolTypeHTTP\<rparr> else gitURL);
          left = (if hasPrefix url prefixHTTP then removePrefix left prefixHTTP else left);
          gitURL = (if hasPrefix url prefixHTTPs
                    then gitURL\<lparr>protocol := ProtocolTypeHTTPs\<rparr> else gitURL);
          left = (if hasPrefix url prefixHTTPs then removePrefix left prefixHTTPs else left);
          (before0, left, ok) = cut_str left ''/''
      in if \<not> ok then Inl errMissingPath
         else
           let (hst, prt, ok) = cut_str before0 '':''
           in case (if ok then
                      (case ParseUint prt 10 16 of
                         Inl err \<Rightarrow> Inl (errIllegalPort prt)
                       | Inr p \<Rightarrow> Inr (gitURL\<lparr>port := of_nat p\<rparr>))
                    else
                      (let gitURL = (if protocol gitURL = ProtocolTypeHTTP
                                    then gitURL\<lparr>port := DefaultHTTPPort\<rparr> else gitURL);
                           gitURL = (if protocol gitURL = ProtocolTypeHTTPs
                                    then gitURL\<lparr>port := DefaultHTTPsPort\<rparr> else gitURL)
                       in Inr gitURL)) of
                Inl err \<Rightarrow> Inl err
              | Inr gitURL \<Rightarrow>
                  let gitURL = gitURL\<lparr>host := hst\<rparr>;
                      (pa, re, _) = lastCut left ''/''
                  in Inr (gitURL\<lparr>path := pa, repo := re\<rparr>))"

definition parseFTPURL :: "string \<Rightarrow> error + GitURL" where
  "parseFTPURL url =
     (let gitURL = zeroGitURL\<lparr>raw := url\<rparr>;
          left = removeSuffix url suffixGit;
          gitURL = (if hasPrefix url prefixFTP
                    then gitURL\<lparr>protocol := ProtocolTypeFTP\<rparr> else gitURL);
          left = (if hasPrefix url prefixFTP then removePrefix left prefixFTP else left);
          gitURL = (if hasPrefix url prefixFTPs
                    then gitURL\<lparr>protocol := ProtocolTypeFTPs\<rparr> else gitURL);
          left = (if hasPrefix url prefixFTPs then removePrefix left prefixFTPs else left);
          (before0, left, ok) = cut_str left ''/''
      in if \<not> ok then Inl errMissingPath
         else
           let (hst, prt, ok) = cut_str before0 '':''
           in case (if ok then
                      (case ParseUint prt 10 16 of
                         Inl err \<Rightarrow> Inl (errIllegalPort prt)
                       | Inr p \<Rightarrow> Inr (gitURL\<lparr>port := of_nat p\<rparr>))
                    else
                      (let gitURL = (if protocol gitURL = ProtocolTypeFTP
                                    then gitURL\<lparr>port := DefaultFTPPort\<rparr> else gitURL);
                           gitURL = (if protocol gitURL = ProtocolTypeFTPs
                                    then gitURL\<lparr>port := DefaultFTPsPort\<rparr> else gitURL)
                       in Inr gitURL)) of
                Inl err \<Rightarrow> Inl err
              | Inr gitURL \<Rightarrow>
                  let gitURL = gitURL\<lparr>host := hst\<rparr>;
                      (pa, re, _) = lastCut left ''/''
                  in Inr (gitURL\<lparr>path := pa, repo := re\<rparr>))"

definition parseSCPURL :: "string \<Rightarrow> error + GitURL" where
  "parseSCPURL url =
     (let gitURL = zeroGitURL\<lparr>port := DefaultSSHPort, protocol := ProtocolTypeSCP, raw := url\<rparr>;
          left = removeSuffix url suffixGit;
          (usr, after, ok) = cut_str left ''@'';
          gitURL = (if ok then gitURL\<lparr>user := usr\<rparr> else gitURL);
          left = (if ok then after else left);
          (hst, left, ok) = cut_str left '':''
      in if \<not> ok then Inl errExpectedColon
         else
           let gitURL = gitURL\<lparr>host := hst\<rparr>;
               (pa, re, _) = lastCut left ''/''
           in Inr (gitURL\<lparr>path := pa, repo := re\<rparr>))"

definition parseURL :: "string \<Rightarrow> error + GitURL" where
  "parseURL url =
     (if hasPrefix url prefixSSH then parseSSHURL url
      else if hasPrefix url prefixGit then parseGitURL url
      else if hasPrefix url prefixHTTP \<or> hasPrefix url prefixHTTPs then parseHTTPURL url
      else if hasPrefix url prefixFTP \<or> hasPrefix url prefixFTPs then parseFTPURL url
      else parseSCPURL url)"

definition NewGitURL :: "string \<Rightarrow> error + GitURL" where
  "NewGitURL url = parseURL url"

section \<open>The package: the formatters\<close>

definition ToSSHFormat :: "GitURL \<Rightarrow> string \<Rightarrow> 16 word \<Rightarrow> bool \<Rightarrow> string" where
  "ToSSHFormat g usr prt withSuffix =
     (let userPart = (if usr \<noteq> ImplicitUser then usr @ ''@'' else []);
          hostPart = host g;
          hostPart = (if prt \<noteq> ImplicitPort then hostPart @ '':'' @ Sprintf_d (unat prt)
                      else hostPart);
          pathPart = ''/'' @ path g @ ''/'' @ repo g;
          pathPart = (if withSuffix then pathPart @ suffixGit else pathPart)
      in prefixSSH @ userPart @ hostPart @ pathPart)"

definition ToGitFormat :: "GitURL \<Rightarrow> 16 word \<Rightarrow> bool \<Rightarrow> string" where
  "ToGitFormat g prt withSuffix =
     (let hostPart = host g;
          hostPart = (if prt \<noteq> ImplicitPort then hostPart @ '':'' @ Sprintf_d (unat prt)
                      else hostPart);
          pathPart = ''/'' @ path g @ ''/'' @ repo g;
          pathPart = (if withSuffix then pathPart @ suffixGit else pathPart)
      in prefixGit @ hostPart @ pathPart)"

definition ToHTTPFormat :: "GitURL \<Rightarrow> 16 word \<Rightarrow> bool \<Rightarrow> bool \<Rightarrow> string" where
  "ToHTTPFormat g prt isSecure withSuffix =
     (let prefixPart = (if isSecure then prefixHTTPs else prefixHTTP);
          hostPart = host g;
          hostPart = (if prt \<noteq> ImplicitPort then hostPart @ '':'' @ Sprintf_d (unat prt)
                      else hostPart);
          pathPart = ''/'' @ path g @ ''/'' @ repo g;
          pathPart = (if withSuffix then pathPart @ suffixGit else pathPart)
      in prefixPart @ hostPart @ pathPart)"

definition ToFTPFormat :: "GitURL \<Rightarrow> 16 word \<Rightarrow> bool \<Rightarrow> bool \<Rightarrow> string" where
  "ToFTPFormat g prt isSecure withSuffix =
     (let prefixPart = (if isSecure then prefixFTPs else prefixFTP);
          hostPart = host g;
          hostPart = (if prt \<noteq> ImplicitPort then hostPart @ '':'' @ Sprintf_d (unat prt)
                      else hostPart);
          pathPart = ''/'' @ path g @ ''/'' @ repo g;
          pathPart = (if withSuffix then pathPart @ suffixGit else pathPart)
      in prefixPart @ hostPart @ pathPart)"

definition ToSCPFormat :: "GitURL \<Rightarrow> string \<Rightarrow> bool \<Rightarrow> string" where
  "ToSCPFormat g usr withSuffix =
     (let userPart = (if usr \<noteq> ImplicitUser then usr @ ''@'' else []);
          pathPart = '':'' @ path g @ ''/'' @ repo g;
          pathPart = (if withSuffix then pathPart @ suffixGit else pathPart)
      in userPart @ host g @ pathPart)"

section \<open>The parse shape of the specification\<close>

text \<open>
  The specification describes the five parsers as one routine: strip a trailing \<open>/\<close>
  and a trailing \<open>.git\<close>, strip the scheme prefix, split off \<open>user@\<close> (SSH and SCP
  only), split at the first \<open>/\<close> (at the first \<open>:\<close> for SCP), split the segment
  before it at \<open>:\<close> into host and port text, split what follows at the last \<open>/\<close>.
  The definitions below follow those words, with \<^const>\<open>takeWhile\<close> and
  \<^const>\<open>dropWhile\<close> in place of the index arithmetic of the code; \<open>spec_parse\<close>
  is compared with \<^const>\<open>NewGitURL\<close> in \<open>NewGitURL_spec_parse\<close>.
\<close>

definition spec_protocol :: "string \<Rightarrow> ProtocolType" where
  "spec_protocol url =
     (if hasPrefix url prefixSSH then ProtocolTypeSSH
      else if hasPrefix url prefixGit then ProtocolTypeGit
      else if hasPrefix url prefixHTTP then ProtocolTypeHTTP
      else if hasPrefix url prefixHTTPs then ProtocolTypeHTTPs
      else if hasPrefix url prefixFTP then ProtocolTypeFTP
      else if hasPrefix url prefixFTPs then ProtocolTypeFTPs
      else ProtocolTypeSCP)"

fun scheme_prefix :: "ProtocolType \<Rightarrow> string" where
  "scheme_prefix ProtocolTypeSSH = prefixSSH"
| "scheme_prefix ProtocolTypeGit = prefixGit"
| "scheme_prefix ProtocolTypeHTTP = prefixHTTP"
| "scheme_prefix ProtocolTypeHTTPs = prefixHTTPs"
| "scheme_prefix ProtocolTypeFTP = prefixFTP"
| "scheme_prefix ProtocolTypeFTPs = prefixFTPs"
| "scheme_prefix ProtocolTypeSCP = []"

fun default_port :: "ProtocolType \<Rightarrow> 16 word" where
  "default_port ProtocolTypeSSH = 22"
| "default_port ProtocolTypeGit = 9418"
| "default_port ProtocolTypeHTTP = 80"
| "default_port ProtocolTypeHTTPs = 443"
| "default_port ProtocolTypeFTP = 21"
| "default_port ProtocolTypeFTPs = 990"
| "default_port ProtocolTypeSCP = 22"

text \<open>The letters of each scheme prefix; the prefix is these letters and \<open>://\<close>.\<close>

fun scheme_name :: "ProtocolType \<Rightarrow> string" where
  "scheme_name ProtocolTypeSSH = ''ssh''"
| "scheme_name ProtocolTypeGit = ''git''"
| "scheme_name ProtocolTypeHTTP = ''http''"
| "scheme_name ProtocolTypeHTTPs = ''https''"
| "scheme_name ProtocolTypeFTP = ''ftp''"
| "scheme_name ProtocolTypeFTPs = ''ftps''"
| "scheme_name ProtocolTypeSCP = []"

definition before_first :: "char \<Rightarrow> string \<Rightarrow> string" where
  "before_first c s = takeWhile (\<lambda>x. x \<noteq> c) s"

definition after_first :: "char \<Rightarrow> string \<Rightarrow> string" where
  "after_first c s = tl (dropWhile (\<lambda>x. x \<noteq> c) s)"

definition before_last :: "char \<Rightarrow> string \<Rightarrow> string" where
  "before_last c s = rev (after_first c (rev s))"

definition after_last :: "char \<Rightarrow> string \<Rightarrow> string" where
  "after_last c s = rev (before_first c (rev s))"

definition spec_stripped :: "string \<Rightarrow> string" where
  "spec_stripped url =
     removePrefix (removeSuffix url suffixGit) (scheme_prefix (spec_protocol url))"

definition spec_has_user :: "string \<Rightarrow> bool" where
  "spec_has_user url =
     ((spec_protocol url = ProtocolTypeSSH \<or> spec_protocol url = ProtocolTypeSCP) \<and>
      CHR ''@'' \<in> set (spec_stripped url))"

definition spec_user :: "string \<Rightarrow> string" where
  "spec_user url = (if spec_has_user url then before_first (CHR ''@'') (spec_stripped url) else [])"

definition spec_remainder :: "string \<Rightarrow> string" where
  "spec_remainder url =
     (if spec_has_user url then after_first (CHR ''@'') (spec_stripped url)
      else spec_stripped url)"

definition spec_separator :: "string \<Rightarrow> char" where
  "spec_separator url = (if spec_protocol url = ProtocolTypeSCP then CHR '':'' else CHR ''/'')"

definition spec_segment :: "string \<Rightarrow> string" where
  "spec_segment url = before_first (spec_separator url) (spec_remainder url)"

definition spec_port_text :: "string \<Rightarrow> string option" where
  "spec_port_text url =
     (if spec_protocol url \<noteq> ProtocolTypeSCP \<and> CHR '':'' \<in> set (spec_segment url)
      then Some (after_first (CHR '':'') (spec_segment url)) else None)"

definition is_digit :: "char \<Rightarrow> bool" where
  "is_digit c = (48 \<le> (of_char c :: nat) \<and> (of_char c :: nat) \<le> 57)"

definition decimal :: "string \<Rightarrow> nat" where
  "decimal t = foldl (\<lambda>n c. 10 * n + (of_char c - 48)) 0 t"

definition valid_port_text :: "string \<Rightarrow> bool" where
  "valid_port_text t = (t \<noteq> [] \<and> list_all is_digit t \<and> decimal t \<le> 65535)"

definition spec_entity :: "string \<Rightarrow> 16 word \<Rightarrow> GitURL" where
  "spec_entity url p =
     \<lparr>protocol = spec_protocol url, port = p, user = spec_user url,
      host = before_first (CHR '':'') (spec_segment url),
      path = before_last (CHR ''/'') (after_first (spec_separator url) (spec_remainder url)),
      repo = after_last (CHR ''/'') (after_first (spec_separator url) (spec_remainder url)),
      raw = url\<rparr>"

definition spec_parse :: "string \<Rightarrow> error + GitURL" where
  "spec_parse url =
     (if spec_separator url \<notin> set (spec_remainder url)
      then Inl (if spec_protocol url = ProtocolTypeSCP then errExpectedColon else errMissingPath)
      else case spec_port_text url of
             None \<Rightarrow> Inr (spec_entity url (default_port (spec_protocol url)))
           | Some t \<Rightarrow>
               if valid_port_text t then Inr (spec_entity url (of_nat (decimal t)))
               else Inl (errIllegalPort t))"

text \<open>
  The parts of an address as the formatters write them: \<open>user@\<close> unless the user is
  empty, \<open>:port\<close> in decimal unless the port is 0, \<open>.git\<close> on request.
\<close>

definition user_part :: "string \<Rightarrow> string" where
  "user_part u = (if u = [] then [] else u @ ''@'')"

definition port_part :: "16 word \<Rightarrow> string" where
  "port_part n = (if n = 0 then [] else '':'' @ Sprintf_d (unat n))"

definition suffix_part :: "bool \<Rightarrow> string" where
  "suffix_part ws = (if ws then ''.git'' else [])"

text \<open>
  Two bytes are fold-equal when \<^const>\<open>EqualFold\<close> accepts them as one-byte strings;
  \<open>fold_rel\<close> says the same of their codes.
\<close>

definition fold_eq :: "char \<Rightarrow> char \<Rightarrow> bool" where
  "fold_eq x y = EqualFold [x] [y]"

definition fold_rel :: "nat \<Rightarrow> nat \<Rightarrow> bool" where
  "fold_rel a b \<longleftrightarrow>
     a < 128 \<and> b < 128 \<and>
     (a = b \<or> (65 \<le> a \<and> a \<le> 90 \<and> b = a + 32) \<or> (65 \<le> b \<and> b \<le> 90 \<and> a = b + 32))"

section \<open>Facts about the library functions\<close>

subsection \<open>Index, LastIndex and the two splits\<close>




lemma Index_bound:
  "Index s sep = Some i \<Longrightarrow> i + length sep \<le> length s \<and> take (length sep) (drop i s) = sep"
proof (induction s arbitrary: i)
  case Nil
  then show ?case by (auto split: if_splits)
next
  case (Cons c s)
  show ?case
  proof (cases "take (length sep) (c # s) = sep")
    case True
    with Cons.prems have "i = 0" by simp
    moreover have "length sep \<le> length (c # s)"
      using arg_cong [OF True, of length] by simp
    ultimately show ?thesis using True by simp
  next
    case False
    with Cons.prems obtain j where j: "Index s sep = Some j" "i = Suc j" by auto
    from Cons.IH [OF j(1)] j(2) show ?thesis by simp
  qed
qed

lemma LastIndex_bound:
  "LastIndex s sep = Some i \<Longrightarrow> i + length sep \<le> length s \<and> take (length sep) (drop i s) = sep"
proof (induction s arbitrary: i)
  case Nil
  then show ?case by (auto split: if_splits)
next
  case (Cons c s)
  show ?case
  proof (cases "LastIndex s sep")
    case None
    with Cons.prems have t: "take (length sep) (c # s) = sep" and "i = 0"
      by (auto split: if_splits)
    moreover have "length sep \<le> length (c # s)"
      using arg_cong [OF t, of length] by simp
    ultimately show ?thesis by simp
  next
    case (Some j)
    with Cons.prems have "i = Suc j" by simp
    with Cons.IH [OF Some] show ?thesis by simp
  qed
qed

lemma takeWhile_neq_less:
  "c \<in> set s \<Longrightarrow> length (takeWhile (\<lambda>x. x \<noteq> c) s) < length s"
  by (induction s) auto

lemma Index_char:
  "Index s [c] = (if c \<in> set s then Some (length (takeWhile (\<lambda>x. x \<noteq> c) s)) else None)"
  by (induction s) auto

lemma takeWhile_rev_snoc:
  "takeWhile (\<lambda>x. x \<noteq> c) (rev s @ [a]) =
     (if c \<in> set s then takeWhile (\<lambda>x. x \<noteq> c) (rev s)
      else if a = c then rev s else rev s @ [a])"
  by (auto simp: takeWhile_append)

lemma LastIndex_char:
  "LastIndex s [c] =
     (if c \<in> set s then Some (length s - Suc (length (takeWhile (\<lambda>x. x \<noteq> c) (rev s))))
      else None)"
proof (induction s)
  case Nil
  show ?case by simp
next
  case (Cons a s)
  show ?case
  proof (cases "c \<in> set s")
    case True
    have "length (takeWhile (\<lambda>x. x \<noteq> c) (rev s)) < length s"
      using True takeWhile_neq_less [of c "rev s"] by simp
    then show ?thesis using True Cons by (simp add: takeWhile_rev_snoc Suc_diff_Suc)
  next
    case False
    then show ?thesis using Cons by (auto simp: takeWhile_rev_snoc)
  qed
qed

lemma cut_char:
  "cut_str s [c] =
     (if c \<in> set s
      then (takeWhile (\<lambda>x. x \<noteq> c) s, tl (dropWhile (\<lambda>x. x \<noteq> c) s), True)
      else (s, [], False))"
proof (cases "c \<in> set s")
  case False
  then show ?thesis by (simp add: cut_str_def Index_char)
next
  case True
  let ?k = "length (takeWhile (\<lambda>x. x \<noteq> c) s)"
  have a: "take ?k s = takeWhile (\<lambda>x. x \<noteq> c) s"
    by (rule takeWhile_eq_take [symmetric])
  have b: "drop (Suc ?k) s = tl (dropWhile (\<lambda>x. x \<noteq> c) s)"
    by (simp only: dropWhile_eq_drop [of "\<lambda>x. x \<noteq> c" s] tl_drop drop_Suc)
  show ?thesis using True by (simp add: cut_str_def Index_char a b del: drop_Suc_Cons)
qed

lemma lastCut_char:
  "lastCut s [c] =
     (if c \<in> set s
      then (rev (tl (dropWhile (\<lambda>x. x \<noteq> c) (rev s))), rev (takeWhile (\<lambda>x. x \<noteq> c) (rev s)), True)
      else ([], s, False))"
proof (cases "c \<in> set s")
  case False
  then show ?thesis by (simp add: lastCut_def LastIndex_char)
next
  case True
  define k where "k = length (takeWhile (\<lambda>x. x \<noteq> c) (rev s))"
  have k: "k < length s"
    unfolding k_def using True takeWhile_neq_less [of c "rev s"] by simp
  have tk: "takeWhile (\<lambda>x. x \<noteq> c) (rev s) = take k (rev s)"
    unfolding k_def by (rule takeWhile_eq_take)
  have dk: "dropWhile (\<lambda>x. x \<noteq> c) (rev s) = drop k (rev s)"
    unfolding k_def by (rule dropWhile_eq_drop)
  have a: "rev (takeWhile (\<lambda>x. x \<noteq> c) (rev s)) = drop (length s - k) s"
    by (simp add: tk take_rev)
  have "tl (drop k (rev s)) = drop (Suc k) (rev s)"
    by (simp add: tl_drop drop_Suc)
  then have b: "rev (tl (dropWhile (\<lambda>x. x \<noteq> c) (rev s))) = take (length s - Suc k) s"
    by (simp add: dk drop_rev)
  have li: "LastIndex s [c] = Some (length s - Suc k)"
    unfolding k_def using True by (simp add: LastIndex_char)
  have "length s - Suc k + 1 = length s - k" using k by simp
  then show ?thesis using True by (simp add: lastCut_def li a b)
qed

subsection \<open>No slice of the helpers is out of range\<close>

lemma slice_front: "n \<le> length s \<Longrightarrow> slice s 0 (int n) = Some (take n s)"
  by (simp add: slice_def)

lemma slice_back: "n \<le> length s \<Longrightarrow> slice s (int n) (int (length s)) = Some (drop n s)"
  by (simp add: slice_def)

lemma hasPrefix_chk: "hasPrefix_chk url prefix = Some (hasPrefix url prefix)"
  by (simp add: hasPrefix_chk_def hasPrefix_def slice_front)

lemma removePrefix_chk: "removePrefix_chk url prefix = Some (removePrefix url prefix)"
  by (simp add: removePrefix_chk_def removePrefix_def slice_front slice_back)

lemma removeSuffix_chk: "removeSuffix_chk url suffix = Some (removeSuffix url suffix)"
proof -
  define u where "u = TrimSuffix url ''/''"
  have a: "slice u (int (length u) - int (length suffix)) (int (length u)) =
             Some (drop (length u - length suffix) u)"
    if "\<not> length u < length suffix"
    using that slice_back [of "length u - length suffix" u] by (simp add: of_nat_diff)
  have b: "slice u 0 (int (length u) - int (length suffix)) =
             Some (take (length u - length suffix) u)"
    if "\<not> length u < length suffix"
    using that slice_front [of "length u - length suffix" u] by (simp add: of_nat_diff)
  show ?thesis
    unfolding removeSuffix_chk_def removeSuffix_def Let_def u_def [symmetric]
    using a b by simp
qed

lemma cut_chk: "cut_chk s sep = Some (cut_str s sep)"
proof (cases "Index s sep")
  case None
  then show ?thesis by (simp add: cut_chk_def cut_str_def)
next
  case (Some i)
  from Index_bound [OF Some] have b: "i + length sep \<le> length s" by simp
  then have "slice s 0 (int i) = Some (take i s)" by (simp add: slice_front)
  moreover have "slice s (int i + int (length sep)) (int (length s)) = Some (drop (i + length sep) s)"
    using slice_back [OF b] by simp
  ultimately show ?thesis using Some by (simp add: cut_chk_def cut_str_def)
qed

lemma lastCut_chk: "lastCut_chk s sep = Some (lastCut s sep)"
proof (cases "LastIndex s sep")
  case None
  then show ?thesis by (simp add: lastCut_chk_def lastCut_def)
next
  case (Some i)
  from LastIndex_bound [OF Some] have b: "i + length sep \<le> length s" by simp
  then have "slice s 0 (int i) = Some (take i s)" by (simp add: slice_front)
  moreover have "slice s (int i + int (length sep)) (int (length s)) = Some (drop (i + length sep) s)"
    using slice_back [OF b] by simp
  ultimately show ?thesis using Some by (simp add: lastCut_chk_def lastCut_def)
qed

subsection \<open>ParseUint with base 10 and 16 bits\<close>

lemma decimal_step_mono:
  "n \<le> foldl (\<lambda>n c. 10 * n + (of_char c - 48)) (n::nat) cs"
proof (induction cs arbitrary: n)
  case Nil
  show ?case by simp
next
  case (Cons c cs)
  have "n \<le> 10 * n + (of_char c - 48)" by simp
  also have "\<dots> \<le> foldl (\<lambda>n c. 10 * n + (of_char c - 48)) (10 * n + (of_char c - 48)) cs"
    by (rule Cons.IH)
  finally show ?case by simp
qed

lemma ParseUint_loop_nondigit:
  assumes "\<not> is_digit c"
  shows "ParseUint_loop 10 cutoff maxVal n (c # cs) = Inl ErrSyntax"
proof (cases "97 \<le> lower c \<and> lower c \<le> 122")
  case letter: True
  then have big: "(10::nat) \<le> lower c - 97 + 10" by linarith
  show ?thesis
  proof (cases "48 \<le> (of_char c :: nat)")
    case True
    with assms have "\<not> (of_char c :: nat) \<le> 57" by (simp add: is_digit_def)
    with True letter big show ?thesis by (simp add: Let_def)
  next
    case False
    with letter big show ?thesis by (simp add: Let_def)
  qed
next
  case noletter: False
  show ?thesis
  proof (cases "48 \<le> (of_char c :: nat)")
    case True
    with assms have "\<not> (of_char c :: nat) \<le> 57" by (simp add: is_digit_def)
    with True noletter show ?thesis by auto
  next
    case False
    with noletter show ?thesis by auto
  qed
qed

lemma ParseUint_loop_digit:
  assumes "is_digit c" and "n \<le> 65535"
  shows "ParseUint_loop 10 ((2 ^ 64 - 1) div 10 + 1) (2 ^ 16 - 1) n (c # cs) =
           (if 10 * n + (of_char c - 48) \<le> 65535
            then ParseUint_loop 10 ((2 ^ 64 - 1) div 10 + 1) (2 ^ 16 - 1)
                   (10 * n + (of_char c - 48)) cs
            else Inl ErrRange)"
proof -
  define d :: nat where "d = of_char c - 48"
  have lo: "48 \<le> (of_char c :: nat)" and hi: "(of_char c :: nat) \<le> 57"
    using assms(1) by (simp_all add: is_digit_def)
  have d9: "d \<le> 9" unfolding d_def using lo hi by linarith
  have m1: "(n * 10) mod 2 ^ 64 = n * 10" using assms(2) by simp
  have m2: "(n * 10 + d) mod 2 ^ 64 = n * 10 + d" using assms(2) d9 by simp
  have nd: "\<not> (10::nat) \<le> d" using d9 by simp
  show ?thesis using lo hi nd assms(2)
    by (simp add: d_def [symmetric] m1 m2 Let_def mult.commute)
qed

lemma ParseUint_loop_ok:
  "n \<le> 65535 \<Longrightarrow> list_all is_digit cs \<Longrightarrow>
   foldl (\<lambda>n c. 10 * n + (of_char c - 48)) n cs \<le> 65535 \<Longrightarrow>
   ParseUint_loop 10 ((2 ^ 64 - 1) div 10 + 1) (2 ^ 16 - 1) n cs =
     Inr (foldl (\<lambda>n c. 10 * n + (of_char c - 48)) n cs)"
proof (induction cs arbitrary: n)
  case Nil
  show ?case by simp
next
  case (Cons c cs)
  let ?n1 = "10 * n + (of_char c - 48 :: nat)"
  from Cons.prems(2) have dig: "is_digit c" and rest: "list_all is_digit cs" by simp_all
  have "?n1 \<le> foldl (\<lambda>n c. 10 * n + (of_char c - 48)) ?n1 cs" by (rule decimal_step_mono)
  with Cons.prems(3) have n1: "?n1 \<le> 65535" by simp
  have "ParseUint_loop 10 ((2 ^ 64 - 1) div 10 + 1) (2 ^ 16 - 1) ?n1 cs =
            Inr (foldl (\<lambda>n c. 10 * n + (of_char c - 48)) ?n1 cs)"
    using Cons.IH [OF n1 rest] Cons.prems(3) by simp
  then show ?case
    using n1 by (simp only: ParseUint_loop_digit [OF dig Cons.prems(1)] if_True foldl_Cons)
qed

lemma ParseUint_loop_Inr:
  "n \<le> 65535 \<Longrightarrow>
   ParseUint_loop 10 ((2 ^ 64 - 1) div 10 + 1) (2 ^ 16 - 1) n cs = Inr v \<Longrightarrow>
   list_all is_digit cs \<and> foldl (\<lambda>n c. 10 * n + (of_char c - 48)) n cs = v \<and> v \<le> 65535"
proof (induction cs arbitrary: n)
  case Nil
  then show ?case by simp
next
  case (Cons c cs)
  let ?n1 = "10 * n + (of_char c - 48 :: nat)"
  have dig: "is_digit c"
    using Cons.prems(2) ParseUint_loop_nondigit [of c] by (cases "is_digit c") auto
  note step = ParseUint_loop_digit [OF dig Cons.prems(1), of cs]
  have n1: "?n1 \<le> 65535"
    using Cons.prems(2) unfolding step by (cases "?n1 \<le> 65535") auto
  have "ParseUint_loop 10 ((2 ^ 64 - 1) div 10 + 1) (2 ^ 16 - 1) ?n1 cs = Inr v"
    using Cons.prems(2) n1 unfolding step by simp
  from Cons.IH [OF n1 this] dig show ?case by simp
qed

lemma ParseUint_valid:
  "valid_port_text t \<Longrightarrow> ParseUint t 10 16 = Inr (decimal t)"
  using ParseUint_loop_ok [of 0 t]
  by (simp add: valid_port_text_def ParseUint_def decimal_def)

lemma ParseUint_Inr:
  "ParseUint t 10 16 = Inr v \<Longrightarrow> valid_port_text t \<and> v = decimal t"
  using ParseUint_loop_Inr [of 0 t v]
  by (auto simp: valid_port_text_def ParseUint_def decimal_def split: if_splits)

lemma ParseUint_invalid:
  "\<not> valid_port_text t \<Longrightarrow> \<exists>e. ParseUint t 10 16 = Inl e"
  using ParseUint_Inr [of t] by (cases "ParseUint t 10 16") auto

subsection \<open>Decimal output, case folding\<close>

lemma digit_table_nth: "k < 10 \<Longrightarrow> (of_char (''0123456789'' ! k) :: nat) = 48 + k"
proof -
  assume "k < 10"
  then have "k \<in> {0, 1, 2, 3, 4, 5, 6, 7, 8, 9}" by auto
  then show ?thesis by auto
qed

lemma Sprintf_d_digits: "list_all is_digit (Sprintf_d n)"
proof (induction n rule: Sprintf_d.induct)
  case (1 n)
  show ?case
  proof (cases "n < 10")
    case True
    then show ?thesis by (simp add: Sprintf_d.simps [of n] is_digit_def digit_table_nth)
  next
    case False
    have "n mod 10 < 10" by simp
    then have "is_digit (''0123456789'' ! (n mod 10))"
      by (simp only: is_digit_def digit_table_nth) simp
    with False 1 show ?thesis by (simp add: Sprintf_d.simps [of n])
  qed
qed

lemma decimal_Sprintf_d: "decimal (Sprintf_d n) = n"
proof (induction n rule: Sprintf_d.induct)
  case (1 n)
  show ?case
  proof (cases "n < 10")
    case True
    then show ?thesis by (simp add: Sprintf_d.simps [of n] decimal_def digit_table_nth)
  next
    case False
    have m: "n mod 10 < 10" by simp
    have "decimal (Sprintf_d (n div 10)) = n div 10" using False 1 by simp
    then show ?thesis using False
      by (simp add: Sprintf_d.simps [of n] decimal_def digit_table_nth [OF m])
  qed
qed

lemma Sprintf_d_not_Nil: "Sprintf_d n \<noteq> []"
  by (simp add: Sprintf_d.simps [of n])

lemma valid_port_text_Sprintf_d: "n \<le> 65535 \<Longrightarrow> valid_port_text (Sprintf_d n)"
  by (simp add: valid_port_text_def Sprintf_d_not_Nil Sprintf_d_digits decimal_Sprintf_d)

lemma is_digit_not_sep: "is_digit c \<Longrightarrow> c \<noteq> CHR ''/'' \<and> c \<noteq> CHR '':'' \<and> c \<noteq> CHR ''@''"
  by (auto simp: is_digit_def)

lemma Sprintf_d_no_sep:
  "CHR ''/'' \<notin> set (Sprintf_d n) \<and> CHR '':'' \<notin> set (Sprintf_d n) \<and> CHR ''@'' \<notin> set (Sprintf_d n)"
  using Sprintf_d_digits [of n] is_digit_not_sep by (auto simp: list_all_iff)

lemma EqualFold_length: "EqualFold s t \<Longrightarrow> length s = length t"
  by (induction s t rule: EqualFold.induct) (auto simp: Let_def split: if_splits)

lemma EqualFold_Cons:
  "EqualFold (x # xs) (p # ps) = (EqualFold [x] [p] \<and> EqualFold xs ps)"
  by (simp add: Let_def)

lemma hasPrefix_Nil: "hasPrefix url [] = True"
  by (simp add: hasPrefix_def)

lemma hasPrefix_Cons:
  "hasPrefix url (p # ps) = (case url of [] \<Rightarrow> False | x # xs \<Rightarrow> EqualFold [x] [p] \<and> hasPrefix xs ps)"
  by (cases url) (auto simp: hasPrefix_def Let_def dest: EqualFold_length)

lemma hasPrefix_append: "length v = length p \<Longrightarrow> hasPrefix (v @ r) p = EqualFold v p"
  by (simp add: hasPrefix_def)

lemma removePrefix_append: "EqualFold v p \<Longrightarrow> removePrefix (v @ r) p = r"
  using EqualFold_length [of v p] by (simp add: removePrefix_def)

lemma HTTP_HTTPs_disjoint: "\<not> (hasPrefix url prefixHTTP \<and> hasPrefix url prefixHTTPs)"
  by (auto simp: prefixHTTP_def prefixHTTPs_def hasPrefix_Cons hasPrefix_Nil split: list.splits if_splits)

lemma FTP_FTPs_disjoint: "\<not> (hasPrefix url prefixFTP \<and> hasPrefix url prefixFTPs)"
  by (auto simp: prefixFTP_def prefixFTPs_def hasPrefix_Cons hasPrefix_Nil split: list.splits if_splits)

section \<open>The parsers compute the parse shape of the specification\<close>

lemma takeWhile_neq_all: "c \<notin> set s \<Longrightarrow> takeWhile (\<lambda>x. x \<noteq> c) s = s"
  by (induction s) auto

lemma dropWhile_neq_all: "c \<notin> set s \<Longrightarrow> dropWhile (\<lambda>x. x \<noteq> c) s = []"
  by (induction s) auto

lemma cut_str_split:
  "cut_str s [c] = (before_first c s, after_first c s, c \<in> set s)"
  by (simp add: cut_char before_first_def after_first_def takeWhile_neq_all dropWhile_neq_all)

lemma lastCut_split:
  "lastCut s [c] = (before_last c s, after_last c s, c \<in> set s)"
  by (simp add: lastCut_char before_first_def after_first_def before_last_def after_last_def
      takeWhile_neq_all dropWhile_neq_all)

lemma port_case:
  "(case ParseUint t 10 16 of Inl err \<Rightarrow> Inl (errIllegalPort t) | Inr p \<Rightarrow> Inr (f p)) =
     (if valid_port_text t then Inr (f (decimal t)) else Inl (errIllegalPort t))"
proof (cases "valid_port_text t")
  case True
  then show ?thesis by (simp add: ParseUint_valid)
next
  case False
  then obtain e where "ParseUint t 10 16 = Inl e" using ParseUint_invalid by blast
  with False show ?thesis by simp
qed

lemmas spec_defs = spec_parse_def spec_entity_def spec_port_text_def spec_segment_def
  spec_separator_def spec_remainder_def spec_user_def spec_has_user_def spec_stripped_def

lemma parseSSHURL_spec:
  "hasPrefix url prefixSSH \<Longrightarrow> parseSSHURL url = spec_parse url"
  by (simp add: parseSSHURL_def spec_defs spec_protocol_def cut_str_split lastCut_split Let_def
      port_case zeroGitURL_def DefaultSSHPort_def)

lemma parseGitURL_spec:
  "\<not> hasPrefix url prefixSSH \<Longrightarrow> hasPrefix url prefixGit \<Longrightarrow> parseGitURL url = spec_parse url"
  by (simp add: parseGitURL_def spec_defs spec_protocol_def cut_str_split lastCut_split Let_def
      port_case zeroGitURL_def DefaultGitPort_def)

lemma parseHTTPURL_spec:
  "\<not> hasPrefix url prefixSSH \<Longrightarrow> \<not> hasPrefix url prefixGit \<Longrightarrow>
   hasPrefix url prefixHTTP \<or> hasPrefix url prefixHTTPs \<Longrightarrow> parseHTTPURL url = spec_parse url"
  using HTTP_HTTPs_disjoint [of url]
  by (auto simp: parseHTTPURL_def spec_defs spec_protocol_def cut_str_split lastCut_split Let_def
      port_case zeroGitURL_def DefaultHTTPPort_def DefaultHTTPsPort_def)

lemma parseFTPURL_spec:
  "\<not> hasPrefix url prefixSSH \<Longrightarrow> \<not> hasPrefix url prefixGit \<Longrightarrow>
   \<not> hasPrefix url prefixHTTP \<Longrightarrow> \<not> hasPrefix url prefixHTTPs \<Longrightarrow>
   hasPrefix url prefixFTP \<or> hasPrefix url prefixFTPs \<Longrightarrow> parseFTPURL url = spec_parse url"
  using FTP_FTPs_disjoint [of url]
  by (auto simp: parseFTPURL_def spec_defs spec_protocol_def cut_str_split lastCut_split Let_def
      port_case zeroGitURL_def DefaultFTPPort_def DefaultFTPsPort_def)

lemma removePrefix_Nil: "removePrefix s [] = s"
  by (simp add: removePrefix_def)

lemma before_first_self: "before_first c (before_first c s) = before_first c s"
  by (simp add: before_first_def)

lemma parseSCPURL_spec:
  "\<not> hasPrefix url prefixSSH \<Longrightarrow> \<not> hasPrefix url prefixGit \<Longrightarrow>
   \<not> hasPrefix url prefixHTTP \<Longrightarrow> \<not> hasPrefix url prefixHTTPs \<Longrightarrow>
   \<not> hasPrefix url prefixFTP \<Longrightarrow> \<not> hasPrefix url prefixFTPs \<Longrightarrow>
   parseSCPURL url = spec_parse url"
  by (simp add: parseSCPURL_def spec_defs spec_protocol_def cut_str_split lastCut_split Let_def
      zeroGitURL_def DefaultSSHPort_def removePrefix_Nil before_first_self)

lemma NewGitURL_spec_parse: "NewGitURL url = spec_parse url"
  unfolding NewGitURL_def parseURL_def
  using parseSSHURL_spec parseGitURL_spec parseHTTPURL_spec parseFTPURL_spec parseSCPURL_spec
  by auto

section \<open>Facts about the parse shape\<close>

lemma split_at_first:
  "c \<in> set s \<Longrightarrow> s = before_first c s @ c # after_first c s"
proof -
  assume c: "c \<in> set s"
  then have "dropWhile (\<lambda>x. x \<noteq> c) s \<noteq> []" by simp
  moreover have "hd (dropWhile (\<lambda>x. x \<noteq> c) s) = c"
    using hd_dropWhile [of "\<lambda>x. x \<noteq> c" s] calculation by simp
  ultimately have "dropWhile (\<lambda>x. x \<noteq> c) s = c # tl (dropWhile (\<lambda>x. x \<noteq> c) s)"
    by (metis list.collapse)
  then have "takeWhile (\<lambda>x. x \<noteq> c) s @ c # tl (dropWhile (\<lambda>x. x \<noteq> c) s) = s"
    by (metis takeWhile_dropWhile_id)
  then show ?thesis by (simp add: before_first_def after_first_def)
qed

lemma before_first_Nil_iff: "before_first c s = [] \<longleftrightarrow> s = [] \<or> hd s = c"
  by (cases s) (auto simp: before_first_def)

lemma before_first_twice_Nil_iff:
  "before_first c (before_first d s) = [] \<longleftrightarrow> s = [] \<or> hd s = c \<or> hd s = d"
  by (cases s) (auto simp: before_first_def)

lemma after_last_Nil_iff: "after_last c s = [] \<longleftrightarrow> s = [] \<or> last s = c"
  by (cases s rule: rev_cases) (auto simp: after_last_def before_first_def)

lemma errors_distinct:
  "errMissingPath \<noteq> errIllegalPort t" "errMissingPath \<noteq> errExpectedColon"
  "errIllegalPort t \<noteq> errExpectedColon" "errIllegalPort t \<noteq> errMissingPath"
  "errExpectedColon \<noteq> errMissingPath" "errExpectedColon \<noteq> errIllegalPort t"
  by (simp_all add: errMissingPath_def errIllegalPort_def errExpectedColon_def)

lemma errIllegalPort_inject: "errIllegalPort t = errIllegalPort t' \<longleftrightarrow> t = t'"
  by (simp add: errIllegalPort_def)

lemma errors_wrap:
  "Is errMissingPath ErrInvalidURL" "Is (errIllegalPort t) ErrInvalidURL"
  "Is errExpectedColon ErrInvalidURL"
  by (simp_all add: errMissingPath_def errIllegalPort_def errExpectedColon_def ErrInvalidURL_def)

lemma error_messages:
  "Error errMissingPath = ''invalid url, missing path to repo''"
  "Error (errIllegalPort t) = ''invalid url, illegal port '' @ [CHR 0x27] @ t @ [CHR 0x27]"
  "Error errExpectedColon = ''invalid url, expected '' @ [CHR 0x27] @ '':'' @ [CHR 0x27]"
  by (simp_all add: errMissingPath_def errIllegalPort_def errExpectedColon_def ErrInvalidURL_def)

lemma unat_port: "n \<le> 65535 \<Longrightarrow> unat (of_nat n :: 16 word) = n"
  by (simp add: unat_of_nat take_bit_nat_eq_self)

subsection \<open>Case variants of a prefix\<close>

lemma fold_eq_iff: "fold_eq x y \<longleftrightarrow> fold_rel (of_char x) (of_char y)"
proof (cases "x = y")
  case True
  then show ?thesis by (simp add: fold_eq_def fold_rel_def)
next
  case ne: False
  then have ne': "(of_char x :: nat) \<noteq> of_char y" by simp
  show ?thesis
  proof (cases "(of_char x :: nat) \<le> of_char y")
    case True
    with ne ne' show ?thesis
      by (simp add: fold_eq_def fold_rel_def Let_def min_absorb1 max_absorb2) linarith
  next
    case False
    then have "(of_char y :: nat) \<le> of_char x" by simp
    with ne ne' False show ?thesis
      by (simp add: fold_eq_def fold_rel_def Let_def min_absorb2 max_absorb1) linarith
  qed
qed

lemma fold_rel_left: "fold_rel a b \<Longrightarrow> fold_rel a c = fold_rel b c"
  unfolding fold_rel_def by arith

lemma fold_eq_left: "fold_eq x y \<Longrightarrow> fold_eq x z = fold_eq y z"
  unfolding fold_eq_iff by (rule fold_rel_left)

lemma EqualFold_Cons_fold:
  "EqualFold (x # xs) (y # ys) = (fold_eq x y \<and> EqualFold xs ys)"
  by (simp add: fold_eq_def Let_def)

lemma EqualFold_take_append:
  "EqualFold a b \<Longrightarrow> EqualFold (take n (a @ r)) q = EqualFold (take n (b @ r)) q"
proof (induction a arbitrary: b n q)
  case Nil
  then show ?case by (cases b) simp_all
next
  case (Cons x a)
  from Cons.prems obtain y b' where b: "b = y # b'" by (cases b) auto
  from Cons.prems have hd: "fold_eq x y" and tl: "EqualFold a b'"
    by (simp_all add: b EqualFold_Cons_fold del: EqualFold.simps(2))
  show ?case
  proof (cases n)
    case 0
    then show ?thesis by simp
  next
    case (Suc m)
    show ?thesis
    proof (cases q)
      case Nil
      then show ?thesis by (simp add: Suc b)
    next
      case (Cons z q')
      show ?thesis
        using Cons.IH [OF tl, of m q'] fold_eq_left [OF hd, of z]
        by (simp add: Suc Cons b EqualFold_Cons_fold del: EqualFold.simps(2))
    qed
  qed
qed

lemma hasPrefix_variant:
  "EqualFold a b \<Longrightarrow> hasPrefix (a @ r) q = hasPrefix (b @ r) q"
  using EqualFold_length [of a b] EqualFold_take_append [of a b "length q" r q]
  by (simp add: hasPrefix_def)

lemma spec_protocol_variant:
  "EqualFold a b \<Longrightarrow> spec_protocol (a @ r) = spec_protocol (b @ r)"
  by (simp add: spec_protocol_def hasPrefix_variant [of a b])

lemma spec_protocol_prefix:
  "proto \<noteq> ProtocolTypeSCP \<Longrightarrow> spec_protocol (scheme_prefix proto @ r) = proto"
  by (cases proto)
     (simp_all add: spec_protocol_def hasPrefix_Cons hasPrefix_Nil prefixSSH_def prefixGit_def
        prefixHTTP_def prefixHTTPs_def prefixFTP_def prefixFTPs_def)

lemma protocol_of_parse: "NewGitURL url = Inr g \<Longrightarrow> protocol g = spec_protocol url"
  unfolding NewGitURL_spec_parse spec_parse_def spec_entity_def
  by (auto split: if_splits option.splits)

subsection \<open>Splitting an assembled text, removing the suffix\<close>

lemma before_first_append: "c \<notin> set a \<Longrightarrow> before_first c (a @ c # b) = a"
  by (simp add: before_first_def takeWhile_tail takeWhile_neq_all)

lemma after_first_append: "c \<notin> set a \<Longrightarrow> after_first c (a @ c # b) = b"
  by (simp add: after_first_def dropWhile_append3 dropWhile_neq_all)

lemma before_first_none: "c \<notin> set s \<Longrightarrow> before_first c s = s"
  by (simp add: before_first_def takeWhile_neq_all)

lemma before_last_append: "c \<notin> set b \<Longrightarrow> before_last c (a @ c # b) = a"
  using after_first_append [of c "rev b" "rev a"] by (simp add: before_last_def)

lemma after_last_append: "c \<notin> set b \<Longrightarrow> after_last c (a @ c # b) = b"
  using before_first_append [of c "rev b" "rev a"] by (simp add: after_last_def)

lemma TrimSuffix_slash:
  "TrimSuffix s ''/'' = (if s \<noteq> [] \<and> last s = CHR ''/'' then butlast s else s)"
proof (cases s rule: rev_cases)
  case Nil
  then show ?thesis by (simp add: TrimSuffix_def)
next
  case (snoc ys y)
  then show ?thesis by (simp add: TrimSuffix_def)
qed

lemma EqualFold_set:
  "EqualFold s t \<Longrightarrow> x \<in> set s \<Longrightarrow> \<exists>y\<in>set t. fold_eq x y"
proof (induction s arbitrary: t)
  case Nil
  then show ?case by simp
next
  case (Cons a s)
  from Cons.prems(1) obtain b t' where t: "t = b # t'" by (cases t) auto
  from Cons.prems(1) have hd: "fold_eq a b" and tl: "EqualFold s t'"
    by (simp_all add: t EqualFold_Cons_fold del: EqualFold.simps(2))
  from Cons.prems(2) Cons.IH [OF tl] hd show ?case by (auto simp: t)
qed

lemma git_suffix_no_slash: "EqualFold z suffixGit \<Longrightarrow> CHR ''/'' \<notin> set z"
proof
  assume e: "EqualFold z suffixGit" and "CHR ''/'' \<in> set z"
  then obtain y where "y \<in> set suffixGit" "fold_eq (CHR ''/'') y"
    using EqualFold_set by blast
  then show False by (auto simp: suffixGit_def fold_eq_iff fold_rel_def)
qed

lemma length_suffixGit: "length suffixGit = 4"
  by (simp add: suffixGit_def)

lemma TrimSuffix_snoc: "TrimSuffix (y @ ''/'') ''/'' = y"
  by (simp add: TrimSuffix_def)

lemma removeSuffix_unchanged:
  assumes "CHR ''/'' \<notin> set r" and "removeSuffix r suffixGit = r"
  shows "\<not> (4 \<le> length r \<and> EqualFold (drop (length r - 4) r) suffixGit)"
proof
  assume a: "4 \<le> length r \<and> EqualFold (drop (length r - 4) r) suffixGit"
  then have ne: "r \<noteq> []" by auto
  then have "last r \<in> set r" by simp
  with assms(1) have "last r \<noteq> CHR ''/''" by metis
  then have "TrimSuffix r ''/'' = r" by (simp add: TrimSuffix_slash)
  with a have e1: "removeSuffix r suffixGit = take (length r - 4) r"
    by (simp add: removeSuffix_def length_suffixGit)
  have "take (length r - 4) r = r" using e1 assms(2) by (rule trans [OF sym])
  then have "min (length r) (length r - 4) = length r" by (metis length_take)
  moreover from a have "4 \<le> length r" by simp
  ultimately show False by linarith
qed

lemma removeSuffix_shape:
  assumes r: "CHR ''/'' \<notin> set r" "r \<noteq> []"
    and S: "if ws then EqualFold S suffixGit else S = [] \<and> removeSuffix r suffixGit = r"
    and T: "T = [] \<or> T = ''/''"
  shows "removeSuffix (x @ ''/'' @ r @ S @ T) suffixGit = x @ ''/'' @ r"
proof -
  define y where "y = x @ ''/'' @ r @ S"
  have lastr: "last r \<noteq> CHR ''/''" using r by (metis last_in_set)
  have lastS: "last S \<noteq> CHR ''/''" if "S \<noteq> []"
  proof -
    from that S have "EqualFold S suffixGit" by (cases ws) auto
    then have "CHR ''/'' \<notin> set S" by (rule git_suffix_no_slash)
    with that show ?thesis by (metis last_in_set)
  qed
  have ylast: "last y \<noteq> CHR ''/''"
    unfolding y_def using lastr lastS r(2) by (cases "S = []") simp_all
  have "TrimSuffix y ''/'' = y"
    using ylast by (simp only: TrimSuffix_slash) simp
  then have trim: "TrimSuffix (y @ T) ''/'' = y"
    using T TrimSuffix_snoc [of y] by auto
  have main: "(if length y < 4 then y
               else if EqualFold (drop (length y - 4) y) suffixGit
               then take (length y - 4) y else y) = x @ ''/'' @ r"
  proof (cases ws)
    case True
    with S have e: "EqualFold S suffixGit" by simp
    then have len: "length S = 4"
      using EqualFold_length [of S suffixGit] by (simp add: length_suffixGit)
    have d: "drop (length y - 4) y = S" using len by (simp add: y_def)
    have t: "take (length y - 4) y = x @ ''/'' @ r" using len by (simp add: y_def)
    have "\<not> length y < 4" using len by (simp add: y_def)
    then show ?thesis using e by (simp only: d t if_True if_False)
  next
    case False
    with S have S0: "S = []" and keep: "removeSuffix r suffixGit = r" by simp_all
    have no: "\<not> EqualFold (drop (length y - 4) y) suffixGit" if big: "\<not> length y < 4"
    proof (cases "4 \<le> length r")
      case True
      define a where "a = x @ ''/''"
      have ya: "y = a @ r" by (simp add: S0 a_def y_def)
      have "length y - 4 = length a + (length r - 4)" using True by (simp add: S0 a_def y_def)
      then have "drop (length y - 4) y = drop (length a + (length r - 4)) (a @ r)"
        by (simp only: ya)
      also have "\<dots> = drop (length r - 4) r" by simp
      finally show ?thesis using removeSuffix_unchanged [OF r(1) keep] True by simp
    next
      case short: False
      have "drop (length y - 4) y = drop (length y - 4) x @ ''/'' @ r"
        using short by (simp add: S0 y_def)
      then have "CHR ''/'' \<in> set (drop (length y - 4) y)" by simp
      then show ?thesis using git_suffix_no_slash by blast
    qed
    have yx: "y = x @ ''/'' @ r" by (simp add: S0 y_def)
    show ?thesis
    proof (cases "length y < 4")
      case True
      then show ?thesis by (simp only: if_True yx)
    next
      case False
      with no [OF False] show ?thesis by (simp only: if_False yx [symmetric])
    qed
  qed
  have "removeSuffix (y @ T) suffixGit = x @ ''/'' @ r"
    by (simp only: removeSuffix_def Let_def trim length_suffixGit main)
  then show ?thesis by (simp add: y_def)
qed

lemma removeSuffix_keeps_iff:
  assumes "CHR ''/'' \<notin> set r"
  shows "removeSuffix r suffixGit = r \<longleftrightarrow> \<not> (\<exists>a b. r = a @ b \<and> EqualFold b suffixGit)"
proof
  assume keep: "removeSuffix r suffixGit = r"
  show "\<not> (\<exists>a b. r = a @ b \<and> EqualFold b suffixGit)"
  proof
    assume "\<exists>a b. r = a @ b \<and> EqualFold b suffixGit"
    then obtain a b where ab: "r = a @ b" and e: "EqualFold b suffixGit" by blast
    from e have len: "length b = 4"
      using EqualFold_length [of b suffixGit] by (simp add: length_suffixGit)
    then have "4 \<le> length r" "drop (length r - 4) r = b" by (simp_all add: ab)
    with e removeSuffix_unchanged [OF assms keep] show False by simp
  qed
next
  assume no: "\<not> (\<exists>a b. r = a @ b \<and> EqualFold b suffixGit)"
  have trim: "TrimSuffix r ''/'' = r"
  proof (cases "r = []")
    case True
    then show ?thesis by (simp add: TrimSuffix_def)
  next
    case False
    then have "last r \<noteq> CHR ''/''" using assms by (metis last_in_set)
    then show ?thesis by (simp add: TrimSuffix_slash)
  qed
  have "r = take (length r - 4) r @ drop (length r - 4) r" by simp
  with no have "\<not> EqualFold (drop (length r - 4) r) suffixGit" by blast
  then show "removeSuffix r suffixGit = r"
    by (simp add: removeSuffix_def trim length_suffixGit)
qed

subsection \<open>Parsing an assembled address\<close>

lemma port_part_no_sep:
  "CHR ''/'' \<notin> set (port_part n)" "CHR ''@'' \<notin> set (port_part n)"
  using Sprintf_d_no_sep [of "unat n"] by (simp_all add: port_part_def)

lemma word16_le: "unat (n :: 16 word) \<le> 65535"
  using unsigned_less [of n, where 'a = nat] by simp

lemma NewGitURL_scheme_shape:
  assumes proto: "proto \<noteq> ProtocolTypeSCP"
    and V: "EqualFold V (scheme_prefix proto)"
    and u: "CHR ''@'' \<notin> set u" "u \<noteq> [] \<longrightarrow> proto = ProtocolTypeSSH"
           "proto = ProtocolTypeSSH \<and> u = [] \<longrightarrow> CHR ''@'' \<notin> set (h @ p @ r)"
    and h: "CHR ''/'' \<notin> set h" "CHR '':'' \<notin> set h"
    and r: "CHR ''/'' \<notin> set r" "r \<noteq> []"
    and S: "if ws then EqualFold S suffixGit else S = [] \<and> removeSuffix r suffixGit = r"
    and T: "T = [] \<or> T = ''/''"
  shows "NewGitURL (V @ user_part u @ h @ port_part n @ ''/'' @ p @ ''/'' @ r @ S @ T) =
           Inr \<lparr>protocol = proto, port = (if n = 0 then default_port proto else n),
                user = u, host = h, path = p, repo = r,
                raw = V @ user_part u @ h @ port_part n @ ''/'' @ p @ ''/'' @ r @ S @ T\<rparr>"
proof -
  define url where "url = V @ user_part u @ h @ port_part n @ ''/'' @ p @ ''/'' @ r @ S @ T"
  define rem where "rem = h @ port_part n @ ''/'' @ p @ ''/'' @ r"
  have pr: "spec_protocol url = proto"
    unfolding url_def using spec_protocol_variant [OF V] spec_protocol_prefix [OF proto] by simp
  have "removeSuffix ((V @ user_part u @ h @ port_part n @ ''/'' @ p) @ ''/'' @ r @ S @ T) suffixGit
          = (V @ user_part u @ h @ port_part n @ ''/'' @ p) @ ''/'' @ r"
    by (rule removeSuffix_shape [OF r S T])
  then have rs: "removeSuffix url suffixGit = V @ user_part u @ rem"
    by (simp add: url_def rem_def)
  have st: "spec_stripped url = user_part u @ rem"
    unfolding spec_stripped_def pr rs by (rule removePrefix_append [OF V])
  have noat: "CHR ''@'' \<notin> set rem" if "proto = ProtocolTypeSSH" "u = []"
    using that u(3) port_part_no_sep(2) [of n] by (simp add: rem_def)
  have hu: "spec_has_user url \<longleftrightarrow> u \<noteq> []"
    unfolding spec_has_user_def pr st using proto u(2) noat
    by (cases "u = []") (auto simp: user_part_def)
  have us: "spec_user url = u"
    unfolding spec_user_def hu st using u(1) before_first_append [of "CHR ''@''" u rem]
    by (simp add: user_part_def)
  have re: "spec_remainder url = rem"
    unfolding spec_remainder_def hu st using u(1) after_first_append [of "CHR ''@''" u rem]
    by (simp add: user_part_def)
  have sp: "spec_separator url = CHR ''/''"
    unfolding spec_separator_def pr using proto by simp
  have nosl: "CHR ''/'' \<notin> set (h @ port_part n)"
    using h(1) port_part_no_sep(1) [of n] by simp
  have rem2: "rem = (h @ port_part n) @ CHR ''/'' # (p @ ''/'' @ r)" by (simp add: rem_def)
  have seg: "spec_segment url = h @ port_part n"
    unfolding spec_segment_def sp re by (subst rem2) (rule before_first_append [OF nosl])
  have left: "after_first (CHR ''/'') rem = p @ CHR ''/'' # r"
    using after_first_append [OF nosl, of "p @ ''/'' @ r"] by (simp add: rem_def)
  have pa: "before_last (CHR ''/'') (p @ CHR ''/'' # r) = p"
    by (rule before_last_append [OF r(1)])
  have rp: "after_last (CHR ''/'') (p @ CHR ''/'' # r) = r"
    by (rule after_last_append [OF r(1)])
  have insep: "CHR ''/'' \<in> set rem" by (simp add: rem_def)
  have ho: "before_first (CHR '':'') (h @ port_part n) = h"
    using before_first_append [OF h(2), of "Sprintf_d (unat n)"] before_first_none [OF h(2)]
    by (simp add: port_part_def)
  have pt: "spec_port_text url = (if n = 0 then None else Some (Sprintf_d (unat n)))"
    unfolding spec_port_text_def pr seg
    using proto h(2) after_first_append [OF h(2), of "Sprintf_d (unat n)"]
    by (simp add: port_part_def)
  have vp: "valid_port_text (Sprintf_d (unat n))"
    by (rule valid_port_text_Sprintf_d [OF word16_le])
  have "spec_parse url =
           Inr \<lparr>protocol = proto, port = (if n = 0 then default_port proto else n),
                user = u, host = h, path = p, repo = r, raw = url\<rparr>"
    unfolding spec_parse_def spec_entity_def sp re pt pr us seg ho left pa rp
    using insep vp by (simp add: decimal_Sprintf_d)
  then show ?thesis unfolding NewGitURL_spec_parse url_def .
qed

lemma NewGitURL_scp_shape:
  assumes scp: "spec_protocol (user_part u @ h @ '':'' @ p @ ''/'' @ r @ S @ T) = ProtocolTypeSCP"
    and u: "CHR ''@'' \<notin> set u" "u = [] \<longrightarrow> CHR ''@'' \<notin> set (h @ p @ r)"
    and h: "CHR '':'' \<notin> set h"
    and r: "CHR ''/'' \<notin> set r" "r \<noteq> []"
    and S: "if ws then EqualFold S suffixGit else S = [] \<and> removeSuffix r suffixGit = r"
    and T: "T = [] \<or> T = ''/''"
  shows "NewGitURL (user_part u @ h @ '':'' @ p @ ''/'' @ r @ S @ T) =
           Inr \<lparr>protocol = ProtocolTypeSCP, port = 22, user = u, host = h, path = p, repo = r,
                raw = user_part u @ h @ '':'' @ p @ ''/'' @ r @ S @ T\<rparr>"
proof -
  define url where "url = user_part u @ h @ '':'' @ p @ ''/'' @ r @ S @ T"
  define rem where "rem = h @ '':'' @ p @ ''/'' @ r"
  have pr: "spec_protocol url = ProtocolTypeSCP" using scp by (simp add: url_def)
  have "removeSuffix ((user_part u @ h @ '':'' @ p) @ ''/'' @ r @ S @ T) suffixGit
          = (user_part u @ h @ '':'' @ p) @ ''/'' @ r"
    by (rule removeSuffix_shape [OF r S T])
  then have rs: "removeSuffix url suffixGit = user_part u @ rem"
    by (simp add: url_def rem_def)
  have st: "spec_stripped url = user_part u @ rem"
    unfolding spec_stripped_def pr rs by (simp add: removePrefix_Nil)
  have noat: "CHR ''@'' \<notin> set rem" if "u = []"
    using that u(2) by (simp add: rem_def)
  have hu: "spec_has_user url \<longleftrightarrow> u \<noteq> []"
    unfolding spec_has_user_def pr st using noat
    by (cases "u = []") (auto simp: user_part_def)
  have us: "spec_user url = u"
    unfolding spec_user_def hu st using u(1) before_first_append [of "CHR ''@''" u rem]
    by (simp add: user_part_def)
  have re: "spec_remainder url = rem"
    unfolding spec_remainder_def hu st using u(1) after_first_append [of "CHR ''@''" u rem]
    by (simp add: user_part_def)
  have sp: "spec_separator url = CHR '':''"
    unfolding spec_separator_def pr by simp
  have rem2: "rem = h @ CHR '':'' # (p @ ''/'' @ r)" by (simp add: rem_def)
  have seg: "spec_segment url = h"
    unfolding spec_segment_def sp re by (subst rem2) (rule before_first_append [OF h])
  have left: "after_first (CHR '':'') rem = p @ CHR ''/'' # r"
    using after_first_append [OF h, of "p @ ''/'' @ r"] by (simp add: rem_def)
  have pa: "before_last (CHR ''/'') (p @ CHR ''/'' # r) = p"
    by (rule before_last_append [OF r(1)])
  have rp: "after_last (CHR ''/'') (p @ CHR ''/'' # r) = r"
    by (rule after_last_append [OF r(1)])
  have insep: "CHR '':'' \<in> set rem" by (simp add: rem_def)
  have ho: "before_first (CHR '':'') h = h" by (rule before_first_none [OF h])
  have pt: "spec_port_text url = None"
    unfolding spec_port_text_def pr by simp
  have "spec_parse url =
           Inr \<lparr>protocol = ProtocolTypeSCP, port = 22, user = u, host = h, path = p, repo = r,
                raw = url\<rparr>"
    unfolding spec_parse_def spec_entity_def sp re pt pr us seg ho left pa rp
    using insep by simp
  then show ?thesis unfolding NewGitURL_spec_parse url_def .
qed

subsection \<open>A scheme prefix in another letter case\<close>

lemma spec_parse_cong:
  assumes "spec_protocol a = spec_protocol b" and "spec_stripped a = spec_stripped b"
  shows "map_sum id (\<lambda>g. g\<lparr>raw := []\<rparr>) (spec_parse a) =
         map_sum id (\<lambda>g. g\<lparr>raw := []\<rparr>) (spec_parse b)"
proof -
  have hu: "spec_has_user a = spec_has_user b" using assms by (simp add: spec_has_user_def)
  have us: "spec_user a = spec_user b" using assms hu by (simp add: spec_user_def)
  have re: "spec_remainder a = spec_remainder b" using assms hu by (simp add: spec_remainder_def)
  have sp: "spec_separator a = spec_separator b" using assms by (simp add: spec_separator_def)
  have sg: "spec_segment a = spec_segment b" using re sp by (simp add: spec_segment_def)
  have pt: "spec_port_text a = spec_port_text b" using assms sg by (simp add: spec_port_text_def)
  have en: "(spec_entity a n)\<lparr>raw := []\<rparr> = (spec_entity b n)\<lparr>raw := []\<rparr>" for n
    using assms us re sp sg by (simp add: spec_entity_def)
  show ?thesis
    unfolding spec_parse_def using assms(1) re sp pt en
    by (simp split: option.splits)
qed

lemma removeSuffix_through_slash:
  assumes "rest \<noteq> []"
  shows "removeSuffix (x @ ''/'' @ rest) suffixGit = x @ ''/'' @ removeSuffix rest suffixGit"
proof -
  define r1 where "r1 = TrimSuffix rest ''/''"
  define y where "y = x @ ''/'' @ r1"
  have trim: "TrimSuffix (x @ ''/'' @ rest) ''/'' = y"
    using assms unfolding y_def r1_def
    by (cases rest rule: rev_cases) (auto simp: TrimSuffix_slash butlast_append)
  have rs: "removeSuffix rest suffixGit =
      (if length r1 < 4 then r1
       else if EqualFold (drop (length r1 - 4) r1) suffixGit then take (length r1 - 4) r1 else r1)"
    by (simp add: removeSuffix_def r1_def length_suffixGit Let_def)
  have main: "(if length y < 4 then y
       else if EqualFold (drop (length y - 4) y) suffixGit then take (length y - 4) y else y) =
      x @ ''/'' @ removeSuffix rest suffixGit"
  proof (cases "4 \<le> length r1")
    case True
    define a where "a = x @ ''/''"
    have ya: "y = a @ r1" by (simp add: y_def a_def)
    have k: "length y - 4 = length a + (length r1 - 4)" using True by (simp add: ya)
    from k have "drop (length y - 4) y = drop (length a + (length r1 - 4)) (a @ r1)"
      by (simp only: ya)
    also have "\<dots> = drop (length r1 - 4) r1" by simp
    finally have d: "drop (length y - 4) y = drop (length r1 - 4) r1" .
    from k have "take (length y - 4) y = take (length a + (length r1 - 4)) (a @ r1)"
      by (simp only: ya)
    also have "\<dots> = a @ take (length r1 - 4) r1" by simp
    finally have t: "take (length y - 4) y = a @ take (length r1 - 4) r1" .
    have big: "\<not> length y < 4" "\<not> length r1 < 4" using True by (simp_all add: ya)
    show ?thesis
      unfolding rs using big by (simp only: d t if_False) (simp add: a_def ya [symmetric] y_def)
  next
    case short: False
    have no: "\<not> EqualFold (drop (length y - 4) y) suffixGit" if "\<not> length y < 4"
    proof -
      have "drop (length y - 4) y = drop (length y - 4) x @ ''/'' @ r1"
        using short by (simp add: y_def)
      then have "CHR ''/'' \<in> set (drop (length y - 4) y)" by simp
      then show ?thesis using git_suffix_no_slash by blast
    qed
    have r: "removeSuffix rest suffixGit = r1" unfolding rs using short by simp
    show ?thesis
    proof (cases "length y < 4")
      case True
      then show ?thesis by (simp only: if_True r y_def)
    next
      case False
      with no [OF False] show ?thesis by (simp only: if_False r y_def)
    qed
  qed
  show ?thesis
    by (simp only: removeSuffix_def [of "x @ ''/'' @ rest"] Let_def trim length_suffixGit main)
qed

lemma scheme_prefix_name:
  "proto \<noteq> ProtocolTypeSCP \<Longrightarrow> scheme_prefix proto = scheme_name proto @ ''://''"
  by (cases proto)
     (simp_all add: prefixSSH_def prefixGit_def prefixHTTP_def prefixHTTPs_def prefixFTP_def
        prefixFTPs_def)

lemma scheme_name_letters:
  "y \<in> set (scheme_name proto) \<Longrightarrow> 97 \<le> (of_char y :: nat) \<and> (of_char y :: nat) \<le> 122"
  by (cases proto) auto

lemma fold_eq_nonletter:
  assumes "fold_eq x y"
    and "\<not> (65 \<le> (of_char y :: nat) \<and> (of_char y :: nat) \<le> 90)"
    and "\<not> (97 \<le> (of_char y :: nat) \<and> (of_char y :: nat) \<le> 122)"
  shows "x = y"
proof -
  from assms have "(of_char x :: nat) = of_char y"
    unfolding fold_eq_iff fold_rel_def by linarith
  then show ?thesis by simp
qed

lemma fold_eq_letter:
  assumes "fold_eq x y" and "97 \<le> (of_char y :: nat) \<and> (of_char y :: nat) \<le> 122"
  shows "x \<noteq> CHR '':'' \<and> x \<noteq> CHR ''/'' \<and> x \<noteq> CHR ''@''"
proof -
  from assms have "65 \<le> (of_char x :: nat)"
    unfolding fold_eq_iff fold_rel_def by linarith
  then show ?thesis by auto
qed

lemma EqualFold_append_right:
  "EqualFold v (a @ b) \<Longrightarrow>
     EqualFold (take (length a) v) a \<and> EqualFold (drop (length a) v) b"
proof (induction a arbitrary: v)
  case Nil
  then show ?case by simp
next
  case (Cons y a)
  from Cons.prems obtain x v' where v: "v = x # v'" by (cases v) auto
  from Cons.prems have hd: "fold_eq x y" and tl: "EqualFold v' (a @ b)"
    by (simp_all add: v EqualFold_Cons_fold del: EqualFold.simps(2))
  from Cons.IH [OF tl] hd show ?case
    by (simp add: v EqualFold_Cons_fold del: EqualFold.simps(2))
qed

lemma EqualFold_separator: "EqualFold w ''://'' \<Longrightarrow> w = ''://''"
proof -
  assume e: "EqualFold w ''://''"
  then obtain a b c where w: "w = [a, b, c]"
    using EqualFold_length [OF e] by (cases w; cases "tl w"; cases "tl (tl w)") auto
  from e have "fold_eq a (CHR '':'')" "fold_eq b (CHR ''/'')" "fold_eq c (CHR ''/'')"
    by (simp_all add: w EqualFold_Cons_fold del: EqualFold.simps(2))
  then have "a = CHR '':''" "b = CHR ''/''" "c = CHR ''/''"
    by (auto dest!: fold_eq_nonletter)
  then show ?thesis by (simp add: w)
qed

lemma prefix_variant_shape:
  assumes "proto \<noteq> ProtocolTypeSCP" and "EqualFold v (scheme_prefix proto)"
  shows "\<exists>lv. v = lv @ ''://'' \<and> length lv = length (scheme_name proto) \<and>
           CHR '':'' \<notin> set lv \<and> CHR ''/'' \<notin> set lv \<and> CHR ''@'' \<notin> set lv"
proof -
  define L where "L = scheme_name proto"
  define lv where "lv = take (length L) v"
  from assms have e: "EqualFold v (L @ ''://'')" by (simp add: scheme_prefix_name L_def)
  from EqualFold_append_right [OF e] have a: "EqualFold lv L"
    and b: "EqualFold (drop (length L) v) ''://''" by (simp_all add: lv_def)
  from EqualFold_separator [OF b] have "v = lv @ ''://''"
    unfolding lv_def by (metis append_take_drop_id)
  moreover have "length lv = length L" using EqualFold_length [OF a] .
  moreover have "x \<noteq> CHR '':'' \<and> x \<noteq> CHR ''/'' \<and> x \<noteq> CHR ''@''" if "x \<in> set lv" for x
  proof -
    from EqualFold_set [OF a that] obtain y where "y \<in> set L" "fold_eq x y" by blast
    then show ?thesis using fold_eq_letter scheme_name_letters unfolding L_def by blast
  qed
  ultimately show ?thesis unfolding L_def by blast
qed

lemma spec_parse_bare_prefix:
  assumes proto: "proto \<noteq> ProtocolTypeSCP" and v: "EqualFold v (scheme_prefix proto)"
  shows "spec_parse v = Inl (errIllegalPort [])"
proof -
  from prefix_variant_shape [OF proto v] obtain lv where
    vs: "v = lv @ ''://''" and len: "length lv = length (scheme_name proto)" and
    no: "CHR '':'' \<notin> set lv" "CHR ''/'' \<notin> set lv" "CHR ''@'' \<notin> set lv"
    by blast
  have pr: "spec_protocol v = proto"
    using spec_protocol_variant [OF v, of "[]"] spec_protocol_prefix [OF proto, of "[]"] by simp
  have "removeSuffix ((lv @ '':'') @ ''/'' @ ''/'') suffixGit =
          (lv @ '':'') @ ''/'' @ removeSuffix ''/'' suffixGit"
    by (rule removeSuffix_through_slash) simp
  moreover have "removeSuffix ''/'' suffixGit = []"
    by (simp add: removeSuffix_def TrimSuffix_def length_suffixGit)
  ultimately have rs: "removeSuffix v suffixGit = lv @ '':/''" by (simp add: vs)
  have "length (lv @ '':/'') < length (scheme_prefix proto)"
    using len by (simp add: scheme_prefix_name [OF proto])
  then have st: "spec_stripped v = lv @ '':/''"
    unfolding spec_stripped_def pr rs by (simp add: removePrefix_def)
  have hu: "\<not> spec_has_user v" unfolding spec_has_user_def st using no(3) by simp
  have re: "spec_remainder v = lv @ '':/''" unfolding spec_remainder_def st using hu by simp
  have sp: "spec_separator v = CHR ''/''" unfolding spec_separator_def pr using proto by simp
  have nos: "CHR ''/'' \<notin> set (lv @ '':'')" using no(2) by simp
  have sg: "spec_segment v = lv @ '':''"
    unfolding spec_segment_def sp re using before_first_append [OF nos, of "[]"] by simp
  have pt: "spec_port_text v = Some []"
    unfolding spec_port_text_def pr sg using proto after_first_append [OF no(1), of "[]"] by simp
  show ?thesis
    unfolding spec_parse_def sp re pt by (simp add: valid_port_text_def)
qed

lemma scheme_prefix_self:
  "proto \<noteq> ProtocolTypeSCP \<Longrightarrow> EqualFold (scheme_prefix proto) (scheme_prefix proto)"
  by (cases proto)
     (simp_all add: prefixSSH_def prefixGit_def prefixHTTP_def prefixHTTPs_def prefixFTP_def
        prefixFTPs_def)

lemma spec_stripped_variant:
  assumes proto: "proto \<noteq> ProtocolTypeSCP" and v: "EqualFold v (scheme_prefix proto)"
    and rest: "rest \<noteq> []"
  shows "spec_stripped (v @ rest) = removeSuffix rest suffixGit"
proof -
  from prefix_variant_shape [OF proto v] obtain lv where vs: "v = lv @ ''://''" by blast
  have pr: "spec_protocol (v @ rest) = proto"
    using spec_protocol_variant [OF v, of rest] spec_protocol_prefix [OF proto, of rest] by simp
  have "removeSuffix ((lv @ '':/'') @ ''/'' @ rest) suffixGit =
          (lv @ '':/'') @ ''/'' @ removeSuffix rest suffixGit"
    by (rule removeSuffix_through_slash [OF rest])
  then have rs: "removeSuffix (v @ rest) suffixGit = v @ removeSuffix rest suffixGit"
    by (simp add: vs)
  show ?thesis unfolding spec_stripped_def pr rs by (rule removePrefix_append [OF v])
qed

lemma NewGitURL_variant:
  assumes proto: "proto \<noteq> ProtocolTypeSCP" and v: "EqualFold v (scheme_prefix proto)"
  shows "map_sum id (\<lambda>g. g\<lparr>raw := []\<rparr>) (NewGitURL (v @ rest)) =
         map_sum id (\<lambda>g. g\<lparr>raw := []\<rparr>) (NewGitURL (scheme_prefix proto @ rest))"
proof (cases "rest = []")
  case True
  then show ?thesis
    using spec_parse_bare_prefix [OF proto v]
      spec_parse_bare_prefix [OF proto scheme_prefix_self [OF proto]]
    by (simp add: NewGitURL_spec_parse)
next
  case False
  have "spec_protocol (v @ rest) = spec_protocol (scheme_prefix proto @ rest)"
    by (rule spec_protocol_variant [OF v])
  moreover have "spec_stripped (v @ rest) = spec_stripped (scheme_prefix proto @ rest)"
    using spec_stripped_variant [OF proto v False]
      spec_stripped_variant [OF proto scheme_prefix_self [OF proto] False] by simp
  ultimately show ?thesis
    unfolding NewGitURL_spec_parse by (rule spec_parse_cong)
qed

subsection \<open>The remaining text is part of the input\<close>

lemma set_TrimSuffix: "set (TrimSuffix s suf) \<subseteq> set s"
  by (auto simp: TrimSuffix_def dest: in_set_takeD in_set_butlastD)

lemma set_removeSuffix: "set (removeSuffix s suf) \<subseteq> set s"
  using set_TrimSuffix [of s "''/''"]
  by (auto simp: removeSuffix_def Let_def dest: in_set_takeD)

lemma set_removePrefix: "set (removePrefix s p) \<subseteq> set s"
  by (auto simp: removePrefix_def dest: in_set_dropD)

lemma set_after_first: "set (after_first c s) \<subseteq> set s"
  unfolding after_first_def
  by (metis dual_order.trans list.set_sel(2) set_dropWhileD subsetI tl_Nil)

lemma set_spec_remainder: "set (spec_remainder url) \<subseteq> set url"
  using set_after_first [of "CHR ''@''" "spec_stripped url"]
    set_removePrefix [of "removeSuffix url suffixGit" "scheme_prefix (spec_protocol url)"]
    set_removeSuffix [of url suffixGit]
  by (auto simp: spec_remainder_def spec_stripped_def)

section \<open>The claims\<close>

text \<open>
  C1, as the code has it. Take an address assembled as prefix, \<open>user@\<close> (SSH and SCP only),
  host, \<open>:port\<close>, \<open>/\<close>, path, \<open>/\<close>, repo, suffix, with a non-empty parent path; the
  prefix in any letter case, the suffix \<open>.git\<close> in any letter case or absent, one trailing
  \<open>/\<close> allowed; the host free of \<open>/\<close> and \<open>:\<close>, the repo non-empty and free of
  \<open>/\<close>, the user free of \<open>@\<close> (and no \<open>@\<close> at all where no user is written); the
  port, not 0, written in decimal without leading zeros, or not written. \<open>NewGitURL\<close> succeeds on
  it and returns the components, and the formatter of the same scheme, given the user as
  written, the port as written (0 when none is written) and the suffix flag of the input,
  returns the normalised input: lower-case prefix, lower-case \<open>.git\<close>, no trailing
  \<open>/\<close>. The same holds for the SCP form, whose text must not begin with a scheme prefix.
\<close>

theorem C1_roundtrip:
  assumes h: "CHR ''/'' \<notin> set h" "CHR '':'' \<notin> set h"
    and p: "p \<noteq> []"
    and r: "CHR ''/'' \<notin> set r" "r \<noteq> []"
    and S0: "if ws then EqualFold S suffixGit
             else S = [] \<and> \<not> (\<exists>a b. r = a @ b \<and> EqualFold b suffixGit)"
    and T: "T = [] \<or> T = ''/''"
  shows
    "(EqualFold V prefixSSH \<and> CHR ''@'' \<notin> set u \<and> (u = [] \<longrightarrow> CHR ''@'' \<notin> set (h @ p @ r)) \<longrightarrow>
        (\<exists>g. NewGitURL (V @ user_part u @ h @ port_part n @ ''/'' @ p @ ''/'' @ r @ S @ T) = Inr g \<and>
             user g = u \<and> host g = h \<and> path g = p \<and> repo g = r \<and>
             port g = (if n = 0 then default_port (protocol g) else n) \<and>
             ToSSHFormat g u n ws =
               ''ssh://'' @ user_part u @ h @ port_part n @ ''/'' @ p @ ''/'' @ r @ suffix_part ws)) \<and>
     (EqualFold V prefixGit \<longrightarrow>
        (\<exists>g. NewGitURL (V @ h @ port_part n @ ''/'' @ p @ ''/'' @ r @ S @ T) = Inr g \<and>
             host g = h \<and> path g = p \<and> repo g = r \<and>
             port g = (if n = 0 then default_port (protocol g) else n) \<and>
             ToGitFormat g n ws =
               ''git://'' @ h @ port_part n @ ''/'' @ p @ ''/'' @ r @ suffix_part ws)) \<and>
     (EqualFold V prefixHTTP \<longrightarrow>
        (\<exists>g. NewGitURL (V @ h @ port_part n @ ''/'' @ p @ ''/'' @ r @ S @ T) = Inr g \<and>
             host g = h \<and> path g = p \<and> repo g = r \<and>
             port g = (if n = 0 then default_port (protocol g) else n) \<and>
             ToHTTPFormat g n False ws =
               ''http://'' @ h @ port_part n @ ''/'' @ p @ ''/'' @ r @ suffix_part ws)) \<and>
     (EqualFold V prefixHTTPs \<longrightarrow>
        (\<exists>g. NewGitURL (V @ h @ port_part n @ ''/'' @ p @ ''/'' @ r @ S @ T) = Inr g \<and>
             host g = h \<and> path g = p \<and> repo g = r \<and>
             port g = (if n = 0 then default_port (protocol g) else n) \<and>
             ToHTTPFormat g n True ws =
               ''https://'' @ h @ port_part n @ ''/'' @ p @ ''/'' @ r @ suffix_part ws)) \<and>
     (EqualFold V prefixFTP \<longrightarrow>
        (\<exists>g. NewGitURL (V @ h @ port_part n @ ''/'' @ p @ ''/'' @ r @ S @ T) = Inr g \<and>
             host g = h \<and> path g = p \<and> repo g = r \<and>
             port g = (if n = 0 then default_port (protocol g) else n) \<and>
             ToFTPFormat g n False ws =
               ''ftp://'' @ h @ port_part n @ ''/'' @ p @ ''/'' @ r @ suffix_part ws)) \<and>
     (EqualFold V prefixFTPs \<longrightarrow>
        (\<exists>g. NewGitURL (V @ h @ port_part n @ ''/'' @ p @ ''/'' @ r @ S @ T) = Inr g \<and>
             host g = h \<and> path g = p \<and> repo g = r \<and>
             port g = (if n = 0 then default_port (protocol g) else n) \<and>
             ToFTPFormat g n True ws =
               ''ftps://'' @ h @ port_part n @ ''/'' @ p @ ''/'' @ r @ suffix_part ws)) \<and>
     (spec_protocol (user_part u @ h @ '':'' @ p @ ''/'' @ r @ S @ T) = ProtocolTypeSCP \<and>
      CHR ''@'' \<notin> set u \<and> (u = [] \<longrightarrow> CHR ''@'' \<notin> set (h @ p @ r)) \<longrightarrow>
        (\<exists>g. NewGitURL (user_part u @ h @ '':'' @ p @ ''/'' @ r @ S @ T) = Inr g \<and>
             user g = u \<and> host g = h \<and> path g = p \<and> repo g = r \<and>
             port g = 22 \<and>
             ToSCPFormat g u ws =
               user_part u @ h @ '':'' @ p @ ''/'' @ r @ suffix_part ws))"
proof -
  have S: "if ws then EqualFold S suffixGit else S = [] \<and> removeSuffix r suffixGit = r"
    using S0 removeSuffix_keeps_iff [OF r(1)] by (cases ws) simp_all
  note fmt = ToSSHFormat_def ToGitFormat_def ToHTTPFormat_def ToFTPFormat_def ToSCPFormat_def
    ImplicitUser_def ImplicitPort_def prefixSSH_def prefixGit_def prefixHTTP_def prefixHTTPs_def
    prefixFTP_def prefixFTPs_def suffixGit_def user_part_def port_part_def suffix_part_def
  have up0: "user_part [] = []" by (simp add: user_part_def)
  have plain: "NewGitURL (V @ h @ port_part n @ ''/'' @ p @ ''/'' @ r @ S @ T) =
      Inr \<lparr>protocol = proto, port = (if n = 0 then default_port proto else n),
           user = [], host = h, path = p, repo = r,
           raw = V @ h @ port_part n @ ''/'' @ p @ ''/'' @ r @ S @ T\<rparr>"
    if "proto \<noteq> ProtocolTypeSCP" "proto \<noteq> ProtocolTypeSSH" "EqualFold V (scheme_prefix proto)"
    for proto
    using NewGitURL_scheme_shape [OF that(1) that(3), of "[]" h p r ws S T n] that(2) h r S T
    by (simp add: up0)
  have ssh: "\<exists>g. NewGitURL (V @ user_part u @ h @ port_part n @ ''/'' @ p @ ''/'' @ r @ S @ T) = Inr g \<and>
             user g = u \<and> host g = h \<and> path g = p \<and> repo g = r \<and>
             port g = (if n = 0 then default_port (protocol g) else n) \<and>
             ToSSHFormat g u n ws =
               ''ssh://'' @ user_part u @ h @ port_part n @ ''/'' @ p @ ''/'' @ r @ suffix_part ws"
    if "EqualFold V prefixSSH" "CHR ''@'' \<notin> set u" "u = [] \<longrightarrow> CHR ''@'' \<notin> set (h @ p @ r)"
    using NewGitURL_scheme_shape [of ProtocolTypeSSH V u h p r ws S T n] that h r S T
    by (simp add: fmt)
  have git: "\<exists>g. NewGitURL (V @ h @ port_part n @ ''/'' @ p @ ''/'' @ r @ S @ T) = Inr g \<and>
             host g = h \<and> path g = p \<and> repo g = r \<and>
             port g = (if n = 0 then default_port (protocol g) else n) \<and>
             ToGitFormat g n ws =
               ''git://'' @ h @ port_part n @ ''/'' @ p @ ''/'' @ r @ suffix_part ws"
    if "EqualFold V prefixGit"
    using plain [of ProtocolTypeGit] that by (simp add: fmt)
  have http: "\<exists>g. NewGitURL (V @ h @ port_part n @ ''/'' @ p @ ''/'' @ r @ S @ T) = Inr g \<and>
             host g = h \<and> path g = p \<and> repo g = r \<and>
             port g = (if n = 0 then default_port (protocol g) else n) \<and>
             ToHTTPFormat g n False ws =
               ''http://'' @ h @ port_part n @ ''/'' @ p @ ''/'' @ r @ suffix_part ws"
    if "EqualFold V prefixHTTP"
    using plain [of ProtocolTypeHTTP] that by (simp add: fmt)
  have https: "\<exists>g. NewGitURL (V @ h @ port_part n @ ''/'' @ p @ ''/'' @ r @ S @ T) = Inr g \<and>
             host g = h \<and> path g = p \<and> repo g = r \<and>
             port g = (if n = 0 then default_port (protocol g) else n) \<and>
             ToHTTPFormat g n True ws =
               ''https://'' @ h @ port_part n @ ''/'' @ p @ ''/'' @ r @ suffix_part ws"
    if "EqualFold V prefixHTTPs"
    using plain [of ProtocolTypeHTTPs] that by (simp add: fmt)
  have ftp: "\<exists>g. NewGitURL (V @ h @ port_part n @ ''/'' @ p @ ''/'' @ r @ S @ T) = Inr g \<and>
             host g = h \<and> path g = p \<and> repo g = r \<and>
             port g = (if n = 0 then default_port (protocol g) else n) \<and>
             ToFTPFormat g n False ws =
               ''ftp://'' @ h @ port_part n @ ''/'' @ p @ ''/'' @ r @ suffix_part ws"
    if "EqualFold V prefixFTP"
    using plain [of ProtocolTypeFTP] that by (simp add: fmt)
  have ftps: "\<exists>g. NewGitURL (V @ h @ port_part n @ ''/'' @ p @ ''/'' @ r @ S @ T) = Inr g \<and>
             host g = h \<and> path g = p \<and> repo g = r \<and>
             port g = (if n = 0 then default_port (protocol g) else n) \<and>
             ToFTPFormat g n True ws =
               ''ftps://'' @ h @ port_part n @ ''/'' @ p @ ''/'' @ r @ suffix_part ws"
    if "EqualFold V prefixFTPs"
    using plain [of ProtocolTypeFTPs] that by (simp add: fmt)
  have scp: "\<exists>g. NewGitURL (user_part u @ h @ '':'' @ p @ ''/'' @ r @ S @ T) = Inr g \<and>
             user g = u \<and> host g = h \<and> path g = p \<and> repo g = r \<and>
             port g = 22 \<and>
             ToSCPFormat g u ws =
               user_part u @ h @ '':'' @ p @ ''/'' @ r @ suffix_part ws"
    if "spec_protocol (user_part u @ h @ '':'' @ p @ ''/'' @ r @ S @ T) = ProtocolTypeSCP"
       "CHR ''@'' \<notin> set u" "u = [] \<longrightarrow> CHR ''@'' \<notin> set (h @ p @ r)"
    using NewGitURL_scp_shape [OF that h(2) r S T] by (simp add: fmt)
  from ssh git http https ftp ftps scp show ?thesis by blast
qed

text \<open>Three instances of C1: SSH with a user, Git with a port and an upper-case form, SCP.\<close>

theorem C1_roundtrip_witness:
  "(\<exists>g. NewGitURL ''ssh://git@gitlab.com/charlie/wto/bomb.git'' = Inr g \<and>
        ToSSHFormat g ''git'' 0 True = ''ssh://git@gitlab.com/charlie/wto/bomb.git'') \<and>
   (\<exists>g. NewGitURL ''GIT://gitlab.com:12345/charlie/wto/bomb.GIT/'' = Inr g \<and>
        ToGitFormat g 12345 True = ''git://gitlab.com:12345/charlie/wto/bomb.git'') \<and>
   (\<exists>g. NewGitURL ''git@gitlab.com:charlie/wto/bomb'' = Inr g \<and>
        ToSCPFormat g ''git'' False = ''git@gitlab.com:charlie/wto/bomb'')"
proof -
  have h: "CHR ''/'' \<notin> set ''gitlab.com''" "CHR '':'' \<notin> set ''gitlab.com''"
    and p: "''charlie/wto'' \<noteq> []"
    and r: "CHR ''/'' \<notin> set ''bomb''" "''bomb'' \<noteq> []"
    by simp_all
  have g1: "EqualFold ''.git'' suffixGit" and g2: "EqualFold ''.GIT'' suffixGit"
    by code_simp+
  have keep: "removeSuffix ''bomb'' suffixGit = ''bomb''" by code_simp
  have S1: "if True then EqualFold ''.git'' suffixGit
            else ''.git'' = [] \<and> \<not> (\<exists>a b. ''bomb'' = a @ b \<and> EqualFold b suffixGit)"
    using g1 by simp
  have S2: "if True then EqualFold ''.GIT'' suffixGit
            else ''.GIT'' = [] \<and> \<not> (\<exists>a b. ''bomb'' = a @ b \<and> EqualFold b suffixGit)"
    using g2 by simp
  have S3: "if False then EqualFold [] suffixGit
            else [] = [] \<and> \<not> (\<exists>a b. ''bomb'' = a @ b \<and> EqualFold b suffixGit)"
    using keep removeSuffix_keeps_iff [OF r(1)] by simp
  have T1: "[] = [] \<or> [] = ''/''" and T2: "''/'' = [] \<or> ''/'' = ''/''" by simp_all
  have e1: "EqualFold ''ssh://'' prefixSSH" and e2: "EqualFold ''GIT://'' prefixGit" by code_simp+
  have sc: "spec_protocol (user_part ''git'' @ ''gitlab.com'' @ '':'' @ ''charlie/wto'' @ ''/'' @
              ''bomb'' @ [] @ []) = ProtocolTypeSCP"
    by code_simp
  have d: "Sprintf_d 12345 = ''12345''" by code_simp
  from C1_roundtrip [OF h p r S1 T1, of "''ssh://''" "''git''" 0] e1
  have a: "\<exists>g. NewGitURL ''ssh://git@gitlab.com/charlie/wto/bomb.git'' = Inr g \<and>
        ToSSHFormat g ''git'' 0 True = ''ssh://git@gitlab.com/charlie/wto/bomb.git''"
    by (auto simp add: user_part_def port_part_def suffix_part_def)
  from C1_roundtrip [OF h p r S2 T2, of "''GIT://''" "[]" 12345] e2
  have b: "\<exists>g. NewGitURL ''GIT://gitlab.com:12345/charlie/wto/bomb.GIT/'' = Inr g \<and>
        ToGitFormat g 12345 True = ''git://gitlab.com:12345/charlie/wto/bomb.git''"
    by (auto simp add: user_part_def port_part_def suffix_part_def d)
  from C1_roundtrip [OF h p r S3 T1, of "[]" "''git''" 0] sc
  have c: "\<exists>g. NewGitURL ''git@gitlab.com:charlie/wto/bomb'' = Inr g \<and>
        ToSCPFormat g ''git'' False = ''git@gitlab.com:charlie/wto/bomb''"
    by (auto simp add: user_part_def port_part_def suffix_part_def)
  from a b c show ?thesis by blast
qed

text \<open>
  C1 as stated fails on an address without parent path, which the parser accepts with the
  empty path (see C10 for what the formatters write then), and on an address that writes
  the port 0.
\<close>

theorem C1_roundtrip_counterexample:
  "NewGitURL ''ssh://admin@119.91.33.58:29418/All-Projects'' =
     Inr \<lparr>protocol = ProtocolTypeSSH, port = 29418, user = ''admin'', host = ''119.91.33.58'',
          path = [], repo = ''All-Projects'',
          raw = ''ssh://admin@119.91.33.58:29418/All-Projects''\<rparr> \<and>
   ToSSHFormat
     \<lparr>protocol = ProtocolTypeSSH, port = 29418, user = ''admin'', host = ''119.91.33.58'',
      path = [], repo = ''All-Projects'',
      raw = ''ssh://admin@119.91.33.58:29418/All-Projects''\<rparr> ''admin'' 29418 False =
     ''ssh://admin@119.91.33.58:29418//All-Projects'' \<and>
   ''ssh://admin@119.91.33.58:29418//All-Projects'' \<noteq>
     ''ssh://admin@119.91.33.58:29418/All-Projects'' \<and>
   NewGitURL ''ssh://gitlab.com:0/charlie/bomb'' =
     Inr \<lparr>protocol = ProtocolTypeSSH, port = 0, user = [], host = ''gitlab.com'',
          path = ''charlie'', repo = ''bomb'', raw = ''ssh://gitlab.com:0/charlie/bomb''\<rparr> \<and>
   ToSSHFormat
     \<lparr>protocol = ProtocolTypeSSH, port = 0, user = [], host = ''gitlab.com'',
      path = ''charlie'', repo = ''bomb'', raw = ''ssh://gitlab.com:0/charlie/bomb''\<rparr>
     [] 0 False = ''ssh://gitlab.com/charlie/bomb''"
  by code_simp

text \<open>
  C2, as the code has it. No parser checks that a component is non-empty. On a successful
  parse the text that remains after the scheme prefix and \<open>user@\<close> is non-empty; the host
  is empty exactly when that text begins with \<open>:\<close> or with the separator of host and
  path (\<open>/\<close>, for SCP \<open>:\<close>); the repo is empty exactly when that text ends with \<open>/\<close>
  or nothing follows the separator. In every other case host and repo are non-empty.
\<close>

theorem C2_host_repo_empty:
  "NewGitURL url = Inr g \<longrightarrow>
     spec_remainder url \<noteq> [] \<and>
     (host g = [] \<longleftrightarrow>
        hd (spec_remainder url) = CHR '':'' \<or> hd (spec_remainder url) = spec_separator url) \<and>
     (repo g = [] \<longleftrightarrow>
        last (spec_remainder url) = CHR ''/'' \<or>
        after_first (spec_separator url) (spec_remainder url) = [])"
proof
  assume ok: "NewGitURL url = Inr g"
  let ?rem = "spec_remainder url"
  let ?sep = "spec_separator url"
  let ?left = "after_first ?sep ?rem"
  from ok have sep: "?sep \<in> set ?rem"
    unfolding NewGitURL_spec_parse spec_parse_def by (auto split: if_splits)
  then have ne: "?rem \<noteq> []" by auto
  from ok have h: "host g = before_first (CHR '':'') (before_first ?sep ?rem)"
    and r: "repo g = after_last (CHR ''/'') ?left"
    unfolding NewGitURL_spec_parse spec_parse_def spec_entity_def spec_segment_def
    by (auto split: if_splits option.splits)
  have hostc: "host g = [] \<longleftrightarrow> hd ?rem = CHR '':'' \<or> hd ?rem = ?sep"
    using ne by (simp add: h before_first_twice_Nil_iff)
  have dec: "?rem = before_first ?sep ?rem @ ?sep # ?left"
    by (rule split_at_first [OF sep])
  have "?left \<noteq> [] \<Longrightarrow> last ?rem = last ?left"
    by (subst dec) simp
  then have ll: "?left = [] \<or> last ?rem = last ?left" by blast
  have "repo g = [] \<longleftrightarrow> ?left = [] \<or> last ?left = CHR ''/''"
    by (simp add: r after_last_Nil_iff)
  with ll have repoc: "repo g = [] \<longleftrightarrow> last ?rem = CHR ''/'' \<or> ?left = []"
    by metis
  from ne hostc repoc show "?rem \<noteq> [] \<and>
     (host g = [] \<longleftrightarrow> hd ?rem = CHR '':'' \<or> hd ?rem = ?sep) \<and>
     (repo g = [] \<longleftrightarrow> last ?rem = CHR ''/'' \<or> ?left = [])"
    by blast
qed

text \<open>An instance of C2 where host and repo are non-empty.\<close>

theorem C2_host_repo_empty_witness:
  "spec_remainder ''git@gitlab.com:charlie/wto/bomb.git'' \<noteq> [] \<and>
   host \<lparr>protocol = ProtocolTypeSCP, port = 22, user = ''git'', host = ''gitlab.com'',
         path = ''charlie/wto'', repo = ''bomb'',
         raw = ''git@gitlab.com:charlie/wto/bomb.git''\<rparr> \<noteq> [] \<and>
   hd (spec_remainder ''git@gitlab.com:charlie/wto/bomb.git'') \<noteq> CHR '':'' \<and>
   last (spec_remainder ''git@gitlab.com:charlie/wto/bomb.git'') \<noteq> CHR ''/'' \<and>
   after_first (spec_separator ''git@gitlab.com:charlie/wto/bomb.git'')
     (spec_remainder ''git@gitlab.com:charlie/wto/bomb.git'') \<noteq> []"
proof -
  let ?url = "''git@gitlab.com:charlie/wto/bomb.git''"
  let ?g = "\<lparr>protocol = ProtocolTypeSCP, port = 22, user = ''git'', host = ''gitlab.com'',
         path = ''charlie/wto'', repo = ''bomb'', raw = ?url\<rparr>"
  have ok: "NewGitURL ?url = Inr ?g" by code_simp
  have hr: "host ?g \<noteq> []" "repo ?g \<noteq> []" by simp_all
  from C2_host_repo_empty [of ?url ?g] ok hr show ?thesis by simp
qed

text \<open>
  C2 as stated fails: these inputs parse successfully with an empty host, an empty repo,
  or both.
\<close>

theorem C2_host_repo_counterexample:
  "NewGitURL ''ssh:///.git'' =
     Inr \<lparr>protocol = ProtocolTypeSSH, port = 22, user = [], host = [], path = [], repo = [],
          raw = ''ssh:///.git''\<rparr> \<and>
   NewGitURL ''git@gitlab.com:'' =
     Inr \<lparr>protocol = ProtocolTypeSCP, port = 22, user = ''git'', host = ''gitlab.com'',
          path = [], repo = [], raw = ''git@gitlab.com:''\<rparr> \<and>
   NewGitURL ''https:///charlie/bomb.git'' =
     Inr \<lparr>protocol = ProtocolTypeHTTPs, port = 443, user = [], host = [],
          path = ''charlie'', repo = ''bomb'', raw = ''https:///charlie/bomb.git''\<rparr>"
  by code_simp

text \<open>
  C3, as the code has it. \<open>NewGitURL\<close> returns an error exactly in three cases, each
  with its own error, and the separators are looked for in the text that remains after
  the trailing \<open>/\<close>, the suffix \<open>.git\<close>, the scheme prefix and, for SSH and SCP, the
  text up to the first \<open>@\<close> are removed (\<open>spec_remainder\<close>), not in the input: with a
  scheme prefix, "missing path to repo" when the remaining text holds no \<open>/\<close>; with a
  scheme prefix, "illegal port" with the port text when the segment of the remaining text
  before its first \<open>/\<close> holds a \<open>:\<close> and the text after the first \<open>:\<close> of that
  segment is no decimal number up to 65535; without a scheme prefix, "expected ':'" when
  the remaining text holds no \<open>:\<close>. An input without scheme prefix that holds no
  \<open>:\<close> at all is one of the latter. Every error wraps \<open>ErrInvalidURL\<close> and is one of
  the three; the result is an error or an entity, never both. No call panics: the only
  operations of the package that can are the slice expressions of its five helpers, and
  with every slice checked each helper returns its value.
\<close>

theorem C3_error_causes:
  "(NewGitURL url = Inl errMissingPath \<longleftrightarrow>
      spec_protocol url \<noteq> ProtocolTypeSCP \<and> CHR ''/'' \<notin> set (spec_remainder url)) \<and>
   (NewGitURL url = Inl (errIllegalPort t) \<longleftrightarrow>
      spec_protocol url \<noteq> ProtocolTypeSCP \<and> CHR ''/'' \<in> set (spec_remainder url) \<and>
      spec_port_text url = Some t \<and> \<not> valid_port_text t) \<and>
   (NewGitURL url = Inl errExpectedColon \<longleftrightarrow>
      spec_protocol url = ProtocolTypeSCP \<and> CHR '':'' \<notin> set (spec_remainder url)) \<and>
   (spec_protocol url = ProtocolTypeSCP \<and> CHR '':'' \<notin> set url \<longrightarrow>
      NewGitURL url = Inl errExpectedColon) \<and>
   (NewGitURL url = Inl e \<longrightarrow>
      (e = errMissingPath \<or> (\<exists>t'. e = errIllegalPort t') \<or> e = errExpectedColon) \<and>
      Is e ErrInvalidURL) \<and>
   Error errMissingPath = ''invalid url, missing path to repo'' \<and>
   Error (errIllegalPort t) = ''invalid url, illegal port '' @ [CHR 0x27] @ t @ [CHR 0x27] \<and>
   Error errExpectedColon = ''invalid url, expected '' @ [CHR 0x27] @ '':'' @ [CHR 0x27] \<and>
   hasPrefix_chk x pre = Some (hasPrefix x pre) \<and>
   removeSuffix_chk x suf = Some (removeSuffix x suf) \<and>
   removePrefix_chk x pre = Some (removePrefix x pre) \<and>
   cut_chk x sep = Some (cut_str x sep) \<and>
   lastCut_chk x sep = Some (lastCut x sep)"
proof -
  have "(NewGitURL url = Inl errMissingPath \<longleftrightarrow>
      spec_protocol url \<noteq> ProtocolTypeSCP \<and> CHR ''/'' \<notin> set (spec_remainder url)) \<and>
   (NewGitURL url = Inl (errIllegalPort t) \<longleftrightarrow>
      spec_protocol url \<noteq> ProtocolTypeSCP \<and> CHR ''/'' \<in> set (spec_remainder url) \<and>
      spec_port_text url = Some t \<and> \<not> valid_port_text t) \<and>
   (NewGitURL url = Inl errExpectedColon \<longleftrightarrow>
      spec_protocol url = ProtocolTypeSCP \<and> CHR '':'' \<notin> set (spec_remainder url)) \<and>
   (spec_protocol url = ProtocolTypeSCP \<and> CHR '':'' \<notin> set url \<longrightarrow>
      NewGitURL url = Inl errExpectedColon) \<and>
   (NewGitURL url = Inl e \<longrightarrow>
      (e = errMissingPath \<or> (\<exists>t'. e = errIllegalPort t') \<or> e = errExpectedColon) \<and>
      Is e ErrInvalidURL)"
    unfolding NewGitURL_spec_parse spec_parse_def
    using set_spec_remainder [of url]
    by (auto simp: spec_separator_def spec_port_text_def errors_distinct errIllegalPort_inject
        errors_wrap split: if_splits option.splits)
  then show ?thesis
    using error_messages(1) error_messages(2) [of t] error_messages(3)
    by (simp add: hasPrefix_chk removeSuffix_chk removePrefix_chk cut_chk lastCut_chk)
qed

text \<open>One input for each of the three errors of C3.\<close>

theorem C3_error_causes_witness:
  "NewGitURL ''git@gitlab.com/charlie/wto/bomb.git'' = Inl errExpectedColon \<and>
   Is errExpectedColon ErrInvalidURL \<and>
   spec_protocol ''git@gitlab.com/charlie/wto/bomb.git'' = ProtocolTypeSCP \<and>
   CHR '':'' \<notin> set ''git@gitlab.com/charlie/wto/bomb.git'' \<and>
   NewGitURL ''ssh://gitlab.com'' = Inl errMissingPath \<and>
   Is errMissingPath ErrInvalidURL \<and>
   NewGitURL ''ssh://admin@119.91.33.58:65536/All-Projects'' = Inl (errIllegalPort ''65536'') \<and>
   Is (errIllegalPort ''65536'') ErrInvalidURL"
proof -
  let ?u1 = "''git@gitlab.com/charlie/wto/bomb.git''"
  let ?u2 = "''ssh://gitlab.com''"
  let ?u3 = "''ssh://admin@119.91.33.58:65536/All-Projects''"
  have c1: "spec_protocol ?u1 = ProtocolTypeSCP \<and> CHR '':'' \<notin> set (spec_remainder ?u1)"
    by code_simp
  have c2: "spec_protocol ?u2 \<noteq> ProtocolTypeSCP \<and> CHR ''/'' \<notin> set (spec_remainder ?u2)"
    by code_simp
  have c3: "spec_protocol ?u3 \<noteq> ProtocolTypeSCP \<and> CHR ''/'' \<in> set (spec_remainder ?u3) \<and>
      spec_port_text ?u3 = Some ''65536'' \<and> \<not> valid_port_text ''65536''"
    by code_simp
  from C3_error_causes [of ?u1 "[]" errExpectedColon] c1
  have a: "NewGitURL ?u1 = Inl errExpectedColon \<and> Is errExpectedColon ErrInvalidURL" by simp
  from C3_error_causes [of ?u2 "[]" errMissingPath] c2
  have b: "NewGitURL ?u2 = Inl errMissingPath \<and> Is errMissingPath ErrInvalidURL" by simp
  from C3_error_causes [of ?u3 "''65536''" "errIllegalPort ''65536''"] c3
  have c: "NewGitURL ?u3 = Inl (errIllegalPort ''65536'') \<and>
           Is (errIllegalPort ''65536'') ErrInvalidURL" by simp
  have d: "CHR '':'' \<notin> set ?u1" by simp
  from a b c c1 d show ?thesis by blast
qed

text \<open>
  C3 as worded does not hold: cause (c) asks that no \<open>:\<close> is present in an input without
  scheme prefix. The input \<open>a:b@host/p\<close> has no scheme prefix and holds a \<open>:\<close>, yet
  \<open>parseSCPURL\<close> first cuts at the \<open>@\<close>, keeps \<open>host/p\<close>, finds no \<open>:\<close> there and
  returns "expected ':'".
\<close>

theorem C3_error_causes_counterexample:
  "NewGitURL ''a:b@host/p'' = Inl errExpectedColon \<and>
   spec_protocol ''a:b@host/p'' = ProtocolTypeSCP \<and>
   CHR '':'' \<in> set ''a:b@host/p'' \<and>
   spec_remainder ''a:b@host/p'' = ''host/p''"
  by code_simp

text \<open>
  C4. Parsing \<open>ssh://git@gitlab.com/charlie/wto/bomb.git\<close> with \<open>NewGitURL\<close> succeeds; the
  entity has protocol SSH, port 22, user \<open>git\<close>, host \<open>gitlab.com\<close>, path
  \<open>charlie/wto\<close> and repo \<open>bomb\<close> (and keeps the input as its raw text).
\<close>

theorem C4_ssh_example:
  "NewGitURL ''ssh://git@gitlab.com/charlie/wto/bomb.git'' =
     Inr \<lparr>protocol = ProtocolTypeSSH, port = 22, user = ''git'', host = ''gitlab.com'',
          path = ''charlie/wto'', repo = ''bomb'',
          raw = ''ssh://git@gitlab.com/charlie/wto/bomb.git''\<rparr>"
  by code_simp

text \<open>
  C5. When a port text stands between \<open>:\<close> and the first \<open>/\<close>, the parse succeeds
  with that port if the text is a non-empty string of decimal digits whose value is at most
  65535, and fails otherwise with the "illegal port" error that quotes the text; this is
  what \<open>ParseUint\<close> with base 10 and 16 bits accepts. \<open>65535\<close> gives port 65535;
  \<open>65536\<close>, and every text with a character that is no digit, gives the error.
\<close>

theorem C5_port_bounds:
  "(spec_protocol url \<noteq> ProtocolTypeSCP \<and> CHR ''/'' \<in> set (spec_remainder url) \<and>
    spec_port_text url = Some t \<longrightarrow>
      (valid_port_text t \<longrightarrow> (\<exists>g. NewGitURL url = Inr g \<and> unat (port g) = decimal t)) \<and>
      (\<not> valid_port_text t \<longrightarrow> NewGitURL url = Inl (errIllegalPort t))) \<and>
   (ParseUint t 10 16 = Inr n \<longleftrightarrow> valid_port_text t \<and> n = decimal t) \<and>
   ((\<exists>c\<in>set t. \<not> is_digit c) \<longrightarrow> \<not> valid_port_text t) \<and>
   Error (errIllegalPort t) = ''invalid url, illegal port '' @ [CHR 0x27] @ t @ [CHR 0x27] \<and>
   NewGitURL ''ssh://admin@119.91.33.58:65535/All-Projects'' =
     Inr \<lparr>protocol = ProtocolTypeSSH, port = 65535, user = ''admin'', host = ''119.91.33.58'',
          path = [], repo = ''All-Projects'',
          raw = ''ssh://admin@119.91.33.58:65535/All-Projects''\<rparr> \<and>
   NewGitURL ''ssh://admin@119.91.33.58:65536/All-Projects'' = Inl (errIllegalPort ''65536'')"
proof -
  have a: "\<exists>g. NewGitURL url = Inr g \<and> unat (port g) = decimal t"
    if "spec_protocol url \<noteq> ProtocolTypeSCP" "CHR ''/'' \<in> set (spec_remainder url)"
       "spec_port_text url = Some t" "valid_port_text t"
    using that unat_port [of "decimal t"]
    unfolding NewGitURL_spec_parse spec_parse_def spec_entity_def
    by (simp add: spec_separator_def valid_port_text_def)
  have b: "NewGitURL url = Inl (errIllegalPort t)"
    if "spec_protocol url \<noteq> ProtocolTypeSCP" "CHR ''/'' \<in> set (spec_remainder url)"
       "spec_port_text url = Some t" "\<not> valid_port_text t"
    using that unfolding NewGitURL_spec_parse spec_parse_def
    by (simp add: spec_separator_def)
  have c: "ParseUint t 10 16 = Inr n \<longleftrightarrow> valid_port_text t \<and> n = decimal t"
    using ParseUint_Inr [of t n] ParseUint_valid [of t] by auto
  have d: "(\<exists>c\<in>set t. \<not> is_digit c) \<longrightarrow> \<not> valid_port_text t"
    by (auto simp: valid_port_text_def list_all_iff)
  have e: "NewGitURL ''ssh://admin@119.91.33.58:65535/All-Projects'' =
     Inr \<lparr>protocol = ProtocolTypeSSH, port = 65535, user = ''admin'', host = ''119.91.33.58'',
          path = [], repo = ''All-Projects'',
          raw = ''ssh://admin@119.91.33.58:65535/All-Projects''\<rparr>"
    by code_simp
  have f: "NewGitURL ''ssh://admin@119.91.33.58:65536/All-Projects'' = Inl (errIllegalPort ''65536'')"
    by code_simp
  from a b c d e f error_messages(2) [of t] show ?thesis by blast
qed

text \<open>C5 at the ports \<open>65535\<close>, \<open>65536\<close> and \<open>22a\<close>.\<close>

theorem C5_port_bounds_witness:
  "valid_port_text ''65535'' \<and>
   (\<exists>g. NewGitURL ''ssh://admin@119.91.33.58:65535/All-Projects'' = Inr g \<and>
        unat (port g) = 65535) \<and>
   \<not> valid_port_text ''65536'' \<and>
   NewGitURL ''ssh://admin@119.91.33.58:65536/All-Projects'' = Inl (errIllegalPort ''65536'') \<and>
   \<not> valid_port_text ''22a'' \<and>
   NewGitURL ''http://gitlab.com:22a/charlie/bomb'' = Inl (errIllegalPort ''22a'')"
proof -
  let ?u1 = "''ssh://admin@119.91.33.58:65535/All-Projects''"
  let ?u2 = "''ssh://admin@119.91.33.58:65536/All-Projects''"
  let ?u3 = "''http://gitlab.com:22a/charlie/bomb''"
  have c1: "spec_protocol ?u1 \<noteq> ProtocolTypeSCP \<and> CHR ''/'' \<in> set (spec_remainder ?u1) \<and>
      spec_port_text ?u1 = Some ''65535'' \<and> valid_port_text ''65535'' \<and> decimal ''65535'' = 65535"
    by code_simp
  have c2: "spec_protocol ?u2 \<noteq> ProtocolTypeSCP \<and> CHR ''/'' \<in> set (spec_remainder ?u2) \<and>
      spec_port_text ?u2 = Some ''65536'' \<and> \<not> valid_port_text ''65536''"
    by code_simp
  have c3: "spec_protocol ?u3 \<noteq> ProtocolTypeSCP \<and> CHR ''/'' \<in> set (spec_remainder ?u3) \<and>
      spec_port_text ?u3 = Some ''22a'' \<and> \<not> valid_port_text ''22a''"
    by code_simp
  from C5_port_bounds [of ?u1 "''65535''" 0] c1
  have a: "\<exists>g. NewGitURL ?u1 = Inr g \<and> unat (port g) = 65535" by simp
  from C5_port_bounds [of ?u2 "''65536''" 0] c2
  have b: "NewGitURL ?u2 = Inl (errIllegalPort ''65536'')" by simp
  from C5_port_bounds [of ?u3 "''22a''" 0] c3
  have c: "NewGitURL ?u3 = Inl (errIllegalPort ''22a'')" by simp
  from a b c c1 c2 c3 show ?thesis by blast
qed

text \<open>
  C6. On a successful parse the protocol is the one the prefix selects; when the input
  writes no port, the port is the default of the protocol: SSH 22, Git 9418, HTTP 80,
  HTTPS 443, FTP 21, FTPS 990; an SCP entity always has port 22. Such parses exist: an
  input whose remaining text holds the separator (\<open>/\<close>, for SCP \<open>:\<close>) and whose host
  segment holds no \<open>:\<close> is parsed, to an entity with the default port of its protocol.
\<close>

theorem C6_default_port:
  "(NewGitURL url = Inr g \<longrightarrow>
      protocol g = spec_protocol url \<and>
      (spec_port_text url = None \<longrightarrow> port g = default_port (protocol g)) \<and>
      (protocol g = ProtocolTypeSCP \<longrightarrow> port g = 22)) \<and>
   (spec_separator url \<in> set (spec_remainder url) \<and> spec_port_text url = None \<longrightarrow>
      (\<exists>g'. NewGitURL url = Inr g' \<and> protocol g' = spec_protocol url \<and>
            port g' = default_port (spec_protocol url))) \<and>
   default_port ProtocolTypeSSH = 22 \<and> default_port ProtocolTypeGit = 9418 \<and>
   default_port ProtocolTypeHTTP = 80 \<and> default_port ProtocolTypeHTTPs = 443 \<and>
   default_port ProtocolTypeFTP = 21 \<and> default_port ProtocolTypeFTPs = 990 \<and>
   default_port ProtocolTypeSCP = 22"
  unfolding NewGitURL_spec_parse spec_parse_def spec_entity_def
  by (auto simp: spec_port_text_def split: if_splits option.splits)

text \<open>
  C6 at the addresses without port of the repository's tests, one for each scheme: each
  is parsed, and the entity holds the default port of its scheme.
\<close>

theorem C6_default_port_witness:
  "NewGitURL ''ssh://git@gitlab.com/charlie/wto/bomb.git'' =
     Inr \<lparr>protocol = ProtocolTypeSSH, port = 22, user = ''git'', host = ''gitlab.com'',
          path = ''charlie/wto'', repo = ''bomb'',
          raw = ''ssh://git@gitlab.com/charlie/wto/bomb.git''\<rparr> \<and>
   NewGitURL ''git://gitlab.com/charlie/wto/bomb.git'' =
     Inr \<lparr>protocol = ProtocolTypeGit, port = 9418, user = [], host = ''gitlab.com'',
          path = ''charlie/wto'', repo = ''bomb'',
          raw = ''git://gitlab.com/charlie/wto/bomb.git''\<rparr> \<and>
   NewGitURL ''http://gitlab.com/charlie/wto/bomb.git'' =
     Inr \<lparr>protocol = ProtocolTypeHTTP, port = 80, user = [], host = ''gitlab.com'',
          path = ''charlie/wto'', repo = ''bomb'',
          raw = ''http://gitlab.com/charlie/wto/bomb.git''\<rparr> \<and>
   NewGitURL ''https://gitlab.com/charlie/wto/bomb.git'' =
     Inr \<lparr>protocol = ProtocolTypeHTTPs, port = 443, user = [], host = ''gitlab.com'',
          path = ''charlie/wto'', repo = ''bomb'',
          raw = ''https://gitlab.com/charlie/wto/bomb.git''\<rparr> \<and>
   NewGitURL ''ftp://gitlab.com/charlie/wto/bomb.git'' =
     Inr \<lparr>protocol = ProtocolTypeFTP, port = 21, user = [], host = ''gitlab.com'',
          path = ''charlie/wto'', repo = ''bomb'',
          raw = ''ftp://gitlab.com/charlie/wto/bomb.git''\<rparr> \<and>
   NewGitURL ''ftps://gitlab.com/charlie/wto/bomb.git'' =
     Inr \<lparr>protocol = ProtocolTypeFTPs, port = 990, user = [], host = ''gitlab.com'',
          path = ''charlie/wto'', repo = ''bomb'',
          raw = ''ftps://gitlab.com/charlie/wto/bomb.git''\<rparr> \<and>
   NewGitURL ''git@gitlab.com:charlie/wto/bomb.git'' =
     Inr \<lparr>protocol = ProtocolTypeSCP, port = 22, user = ''git'', host = ''gitlab.com'',
          path = ''charlie/wto'', repo = ''bomb'',
          raw = ''git@gitlab.com:charlie/wto/bomb.git''\<rparr> \<and>
   spec_port_text ''ssh://git@gitlab.com/charlie/wto/bomb.git'' = None \<and>
   spec_port_text ''git://gitlab.com/charlie/wto/bomb.git'' = None \<and>
   spec_port_text ''http://gitlab.com/charlie/wto/bomb.git'' = None \<and>
   spec_port_text ''https://gitlab.com/charlie/wto/bomb.git'' = None \<and>
   spec_port_text ''ftp://gitlab.com/charlie/wto/bomb.git'' = None \<and>
   spec_port_text ''ftps://gitlab.com/charlie/wto/bomb.git'' = None \<and>
   spec_port_text ''git@gitlab.com:charlie/wto/bomb.git'' = None"
proof -
  let ?u1 = "''ssh://git@gitlab.com/charlie/wto/bomb.git''"
  let ?u2 = "''git://gitlab.com/charlie/wto/bomb.git''"
  let ?u3 = "''http://gitlab.com/charlie/wto/bomb.git''"
  let ?u4 = "''https://gitlab.com/charlie/wto/bomb.git''"
  let ?u5 = "''ftp://gitlab.com/charlie/wto/bomb.git''"
  let ?u6 = "''ftps://gitlab.com/charlie/wto/bomb.git''"
  let ?u7 = "''git@gitlab.com:charlie/wto/bomb.git''"
  let ?g = "\<lambda>pr us u. \<lparr>protocol = pr, port = default_port pr, user = us,
       host = ''gitlab.com'', path = ''charlie/wto'', repo = ''bomb'', raw = u\<rparr>"
  have ok1: "NewGitURL ?u1 = Inr (?g ProtocolTypeSSH ''git'' ?u1)" by code_simp
  have ok2: "NewGitURL ?u2 = Inr (?g ProtocolTypeGit [] ?u2)" by code_simp
  have ok3: "NewGitURL ?u3 = Inr (?g ProtocolTypeHTTP [] ?u3)" by code_simp
  have ok4: "NewGitURL ?u4 = Inr (?g ProtocolTypeHTTPs [] ?u4)" by code_simp
  have ok5: "NewGitURL ?u5 = Inr (?g ProtocolTypeFTP [] ?u5)" by code_simp
  have ok6: "NewGitURL ?u6 = Inr (?g ProtocolTypeFTPs [] ?u6)" by code_simp
  have ok7: "NewGitURL ?u7 = Inr (?g ProtocolTypeSCP ''git'' ?u7)" by code_simp
  have np: "spec_port_text ?u1 = None" "spec_port_text ?u2 = None" "spec_port_text ?u3 = None"
    "spec_port_text ?u4 = None" "spec_port_text ?u5 = None" "spec_port_text ?u6 = None"
    "spec_port_text ?u7 = None"
    by code_simp+
  have sep: "spec_separator ?u1 \<in> set (spec_remainder ?u1)"
    "spec_separator ?u2 \<in> set (spec_remainder ?u2)"
    "spec_separator ?u3 \<in> set (spec_remainder ?u3)"
    "spec_separator ?u4 \<in> set (spec_remainder ?u4)"
    "spec_separator ?u5 \<in> set (spec_remainder ?u5)"
    "spec_separator ?u6 \<in> set (spec_remainder ?u6)"
    "spec_separator ?u7 \<in> set (spec_remainder ?u7)"
    by code_simp+
  from C6_default_port [of ?u1 "?g ProtocolTypeSSH ''git'' ?u1"]
    C6_default_port [of ?u2 "?g ProtocolTypeGit [] ?u2"]
    C6_default_port [of ?u3 "?g ProtocolTypeHTTP [] ?u3"]
    C6_default_port [of ?u4 "?g ProtocolTypeHTTPs [] ?u4"]
    C6_default_port [of ?u5 "?g ProtocolTypeFTP [] ?u5"]
    C6_default_port [of ?u6 "?g ProtocolTypeFTPs [] ?u6"]
    C6_default_port [of ?u7 "?g ProtocolTypeSCP ''git'' ?u7"]
    ok1 ok2 ok3 ok4 ok5 ok6 ok7 np sep
  show ?thesis by simp
qed

text \<open>
  C7. In \<open>ToSSHFormat\<close>, \<open>ToGitFormat\<close>, \<open>ToHTTPFormat\<close> and \<open>ToFTPFormat\<close> the port 0
  leaves out the \<open>:port\<close> segment, whatever the scheme and whatever port the entity
  holds; in \<open>ToSSHFormat\<close> and \<open>ToSCPFormat\<close> the empty user leaves out \<open>user@\<close>. The
  entity parsed from \<open>ssh://git@gitlab.com/charlie/wto/bomb.git\<close>, formatted by
  \<open>ToHTTPFormat\<close> with port 0, not secure, without suffix, is
  \<open>http://gitlab.com/charlie/wto/bomb\<close>.
\<close>

theorem C7_implicit_port_and_user:
  "ToSSHFormat g usr 0 ws =
     ''ssh://'' @ (if usr = [] then [] else usr @ ''@'') @ host g @
     ''/'' @ path g @ ''/'' @ repo g @ (if ws then ''.git'' else []) \<and>
   ToGitFormat g 0 ws =
     ''git://'' @ host g @ ''/'' @ path g @ ''/'' @ repo g @ (if ws then ''.git'' else []) \<and>
   ToHTTPFormat g 0 sec ws =
     (if sec then ''https://'' else ''http://'') @ host g @
     ''/'' @ path g @ ''/'' @ repo g @ (if ws then ''.git'' else []) \<and>
   ToFTPFormat g 0 sec ws =
     (if sec then ''ftps://'' else ''ftp://'') @ host g @
     ''/'' @ path g @ ''/'' @ repo g @ (if ws then ''.git'' else []) \<and>
   ToSSHFormat g [] prt ws =
     ''ssh://'' @ host g @ (if prt = 0 then [] else '':'' @ Sprintf_d (unat prt)) @
     ''/'' @ path g @ ''/'' @ repo g @ (if ws then ''.git'' else []) \<and>
   ToSCPFormat g [] ws =
     host g @ '':'' @ path g @ ''/'' @ repo g @ (if ws then ''.git'' else []) \<and>
   (\<exists>e. NewGitURL ''ssh://git@gitlab.com/charlie/wto/bomb.git'' = Inr e \<and>
        ToHTTPFormat e 0 False False = ''http://gitlab.com/charlie/wto/bomb'')"
proof -
  have "NewGitURL ''ssh://git@gitlab.com/charlie/wto/bomb.git'' =
     Inr \<lparr>protocol = ProtocolTypeSSH, port = 22, user = ''git'', host = ''gitlab.com'',
          path = ''charlie/wto'', repo = ''bomb'',
          raw = ''ssh://git@gitlab.com/charlie/wto/bomb.git''\<rparr>"
    by code_simp
  moreover have "ToHTTPFormat
       \<lparr>protocol = ProtocolTypeSSH, port = 22, user = ''git'', host = ''gitlab.com'',
          path = ''charlie/wto'', repo = ''bomb'',
          raw = ''ssh://git@gitlab.com/charlie/wto/bomb.git''\<rparr> 0 False False =
     ''http://gitlab.com/charlie/wto/bomb''"
    by code_simp
  ultimately have ex: "\<exists>e. NewGitURL ''ssh://git@gitlab.com/charlie/wto/bomb.git'' = Inr e \<and>
        ToHTTPFormat e 0 False False = ''http://gitlab.com/charlie/wto/bomb''"
    by blast
  show ?thesis
    using ex
    by (simp add: ToSSHFormat_def ToGitFormat_def ToHTTPFormat_def ToFTPFormat_def
        ToSCPFormat_def ImplicitUser_def ImplicitPort_def prefixSSH_def prefixGit_def
        prefixHTTP_def prefixHTTPs_def prefixFTP_def prefixFTPs_def suffixGit_def)
qed



text \<open>
  C9. Writing a scheme prefix in another letter case changes none of the prefix tests of
  \<open>parseURL\<close>: the input is classified as the protocol of the prefix, the parser of that
  protocol runs, and a successful parse carries that protocol. The parse of the variant and
  the parse of the lower-case form return the same error, or entities that differ in the raw
  text only.
\<close>

theorem C9_case_insensitive:
  "proto \<noteq> ProtocolTypeSCP \<and> EqualFold v (scheme_prefix proto) \<longrightarrow>
     (\<forall>q. hasPrefix (v @ rest) q = hasPrefix (scheme_prefix proto @ rest) q) \<and>
     spec_protocol (v @ rest) = proto \<and>
     NewGitURL (v @ rest) =
       (case proto of
          ProtocolTypeSSH \<Rightarrow> parseSSHURL (v @ rest)
        | ProtocolTypeGit \<Rightarrow> parseGitURL (v @ rest)
        | ProtocolTypeHTTP \<Rightarrow> parseHTTPURL (v @ rest)
        | ProtocolTypeHTTPs \<Rightarrow> parseHTTPURL (v @ rest)
        | ProtocolTypeFTP \<Rightarrow> parseFTPURL (v @ rest)
        | ProtocolTypeFTPs \<Rightarrow> parseFTPURL (v @ rest)
        | ProtocolTypeSCP \<Rightarrow> parseSCPURL (v @ rest)) \<and>
     (\<forall>g. NewGitURL (v @ rest) = Inr g \<longrightarrow> protocol g = proto) \<and>
     map_sum id (\<lambda>g. g\<lparr>raw := []\<rparr>) (NewGitURL (v @ rest)) =
       map_sum id (\<lambda>g. g\<lparr>raw := []\<rparr>) (NewGitURL (scheme_prefix proto @ rest))"
proof
  assume a: "proto \<noteq> ProtocolTypeSCP \<and> EqualFold v (scheme_prefix proto)"
  then have proto: "proto \<noteq> ProtocolTypeSCP" and v: "EqualFold v (scheme_prefix proto)"
    by simp_all
  have hp: "hasPrefix (v @ rest) q = hasPrefix (scheme_prefix proto @ rest) q" for q
    by (rule hasPrefix_variant [OF v])
  have sp: "spec_protocol (v @ rest) = proto"
    using spec_protocol_variant [OF v, of rest] spec_protocol_prefix [OF proto, of rest] by simp
  have vals:
    "hasPrefix (v @ rest) prefixSSH = (proto = ProtocolTypeSSH)"
    "hasPrefix (v @ rest) prefixGit = (proto = ProtocolTypeGit)"
    "hasPrefix (v @ rest) prefixHTTP = (proto = ProtocolTypeHTTP)"
    "hasPrefix (v @ rest) prefixHTTPs = (proto = ProtocolTypeHTTPs)"
    "hasPrefix (v @ rest) prefixFTP = (proto = ProtocolTypeFTP)"
    "hasPrefix (v @ rest) prefixFTPs = (proto = ProtocolTypeFTPs)"
    unfolding hp using proto
    by (cases proto;
        simp add: hasPrefix_Cons hasPrefix_Nil prefixSSH_def prefixGit_def prefixHTTP_def
          prefixHTTPs_def prefixFTP_def prefixFTPs_def)+
  have run: "NewGitURL (v @ rest) =
       (case proto of
          ProtocolTypeSSH \<Rightarrow> parseSSHURL (v @ rest)
        | ProtocolTypeGit \<Rightarrow> parseGitURL (v @ rest)
        | ProtocolTypeHTTP \<Rightarrow> parseHTTPURL (v @ rest)
        | ProtocolTypeHTTPs \<Rightarrow> parseHTTPURL (v @ rest)
        | ProtocolTypeFTP \<Rightarrow> parseFTPURL (v @ rest)
        | ProtocolTypeFTPs \<Rightarrow> parseFTPURL (v @ rest)
        | ProtocolTypeSCP \<Rightarrow> parseSCPURL (v @ rest))"
    using proto by (cases proto) (simp_all add: NewGitURL_def parseURL_def vals)
  have pg: "protocol g = proto" if "NewGitURL (v @ rest) = Inr g" for g
    using protocol_of_parse [OF that] sp by simp
  from hp sp run pg show "(\<forall>q. hasPrefix (v @ rest) q = hasPrefix (scheme_prefix proto @ rest) q) \<and>
     spec_protocol (v @ rest) = proto \<and>
     NewGitURL (v @ rest) =
       (case proto of
          ProtocolTypeSSH \<Rightarrow> parseSSHURL (v @ rest)
        | ProtocolTypeGit \<Rightarrow> parseGitURL (v @ rest)
        | ProtocolTypeHTTP \<Rightarrow> parseHTTPURL (v @ rest)
        | ProtocolTypeHTTPs \<Rightarrow> parseHTTPURL (v @ rest)
        | ProtocolTypeFTP \<Rightarrow> parseFTPURL (v @ rest)
        | ProtocolTypeFTPs \<Rightarrow> parseFTPURL (v @ rest)
        | ProtocolTypeSCP \<Rightarrow> parseSCPURL (v @ rest)) \<and>
     (\<forall>g. NewGitURL (v @ rest) = Inr g \<longrightarrow> protocol g = proto) \<and>
     map_sum id (\<lambda>g. g\<lparr>raw := []\<rparr>) (NewGitURL (v @ rest)) =
       map_sum id (\<lambda>g. g\<lparr>raw := []\<rparr>) (NewGitURL (scheme_prefix proto @ rest))"
    using NewGitURL_variant [OF proto v, of rest] by blast
qed

text \<open>C9 at \<open>SsH://\<close>, \<open>SSH://\<close> and \<open>hTTpS://\<close>.\<close>

theorem C9_case_insensitive_witness:
  "spec_protocol ''SsH://git@gitlab.com/charlie/wto/bomb.git'' = ProtocolTypeSSH \<and>
   spec_protocol ''SSH://git@gitlab.com/charlie/wto/bomb.git'' = ProtocolTypeSSH \<and>
   NewGitURL ''SsH://git@gitlab.com/charlie/wto/bomb.git'' =
     parseSSHURL ''SsH://git@gitlab.com/charlie/wto/bomb.git'' \<and>
   NewGitURL ''hTTpS://gitlab.com/charlie/wto/bomb.git'' =
     parseHTTPURL ''hTTpS://gitlab.com/charlie/wto/bomb.git''"
proof -
  have e1: "EqualFold ''SsH://'' (scheme_prefix ProtocolTypeSSH)" by code_simp
  have e2: "EqualFold ''SSH://'' (scheme_prefix ProtocolTypeSSH)" by code_simp
  have e3: "EqualFold ''hTTpS://'' (scheme_prefix ProtocolTypeHTTPs)" by code_simp
  from C9_case_insensitive [of ProtocolTypeSSH "''SsH://''" "''git@gitlab.com/charlie/wto/bomb.git''"]
       C9_case_insensitive [of ProtocolTypeSSH "''SSH://''" "''git@gitlab.com/charlie/wto/bomb.git''"]
       C9_case_insensitive [of ProtocolTypeHTTPs "''hTTpS://''" "''gitlab.com/charlie/wto/bomb.git''"]
       e1 e2 e3
  show ?thesis by simp
qed

text \<open>
  C10. For an entity whose path is empty, \<open>ToSSHFormat\<close>, \<open>ToGitFormat\<close>, \<open>ToHTTPFormat\<close>
  and \<open>ToFTPFormat\<close> put two slashes before the repo name, and \<open>ToSCPFormat\<close> puts
  \<open>:/\<close> before it: the path part is always \<open>/\<close>, path, \<open>/\<close>, repo.
\<close>

theorem C10_empty_path_format:
  "path g = [] \<Longrightarrow>
   ToSSHFormat g usr prt ws =
     ''ssh://'' @ (if usr = [] then [] else usr @ ''@'') @ host g @
     (if prt = 0 then [] else '':'' @ Sprintf_d (unat prt)) @
     ''//'' @ repo g @ (if ws then ''.git'' else []) \<and>
   ToGitFormat g prt ws =
     ''git://'' @ host g @ (if prt = 0 then [] else '':'' @ Sprintf_d (unat prt)) @
     ''//'' @ repo g @ (if ws then ''.git'' else []) \<and>
   ToGitFormat g 0 False = ''git://'' @ host g @ ''//'' @ repo g \<and>
   ToHTTPFormat g prt sec ws =
     (if sec then ''https://'' else ''http://'') @ host g @
     (if prt = 0 then [] else '':'' @ Sprintf_d (unat prt)) @
     ''//'' @ repo g @ (if ws then ''.git'' else []) \<and>
   ToFTPFormat g prt sec ws =
     (if sec then ''ftps://'' else ''ftp://'') @ host g @
     (if prt = 0 then [] else '':'' @ Sprintf_d (unat prt)) @
     ''//'' @ repo g @ (if ws then ''.git'' else []) \<and>
   ToSCPFormat g usr ws =
     (if usr = [] then [] else usr @ ''@'') @ host g @ '':/'' @ repo g @
     (if ws then ''.git'' else [])"
  by (simp add: ToSSHFormat_def ToGitFormat_def ToHTTPFormat_def ToFTPFormat_def
      ToSCPFormat_def ImplicitUser_def ImplicitPort_def prefixSSH_def prefixGit_def
      prefixHTTP_def prefixHTTPs_def prefixFTP_def prefixFTPs_def suffixGit_def)

text \<open>C10 at the entity of an address without parent path.\<close>

theorem C10_empty_path_format_witness:
  "path \<lparr>protocol = ProtocolTypeSSH, port = 29418, user = ''admin'', host = ''119.91.33.58'',
         path = [], repo = ''All-Projects'',
         raw = ''ssh://admin@119.91.33.58:29418/All-Projects''\<rparr> = [] \<and>
   ToSSHFormat \<lparr>protocol = ProtocolTypeSSH, port = 29418, user = ''admin'',
         host = ''119.91.33.58'', path = [], repo = ''All-Projects'',
         raw = ''ssh://admin@119.91.33.58:29418/All-Projects''\<rparr> ''admin'' 29418 False =
     ''ssh://admin@119.91.33.58:29418//All-Projects'' \<and>
   ToGitFormat \<lparr>protocol = ProtocolTypeSSH, port = 29418, user = ''admin'',
         host = ''119.91.33.58'', path = [], repo = ''All-Projects'',
         raw = ''ssh://admin@119.91.33.58:29418/All-Projects''\<rparr> 0 False =
     ''git://119.91.33.58//All-Projects'' \<and>
   ToSCPFormat \<lparr>protocol = ProtocolTypeSSH, port = 29418, user = ''admin'',
         host = ''119.91.33.58'', path = [], repo = ''All-Projects'',
         raw = ''ssh://admin@119.91.33.58:29418/All-Projects''\<rparr> ''admin'' True =
     ''admin@119.91.33.58:/All-Projects.git''"
proof -
  let ?g = "\<lparr>protocol = ProtocolTypeSSH, port = 29418, user = ''admin'',
         host = ''119.91.33.58'', path = [], repo = ''All-Projects'',
         raw = ''ssh://admin@119.91.33.58:29418/All-Projects''\<rparr>"
  have h: "path ?g = []" by simp
  have d: "Sprintf_d 29418 = ''29418''" by code_simp
  from C10_empty_path_format [OF h, of "''admin''" 29418 False False]
       C10_empty_path_format [OF h, of "''admin''" 0 True False]
  show ?thesis by (simp add: d)
qed

end
